theory Spec2Isabelle
  imports Main
begin

section \<open>JavaScript values used by the cipher engine\<close>

text \<open>
  The engine (\<^verbatim>\<open>src/front/src/lib/enigma.ts\<close>, and the same code split over
  \<^verbatim>\<open>src/enigma/rotor.js\<close>, \<^verbatim>\<open>plugboard.js\<close>, \<^verbatim>\<open>reflector.js\<close>, \<^verbatim>\<open>enigma.js\<close>) works on
  JavaScript strings and numbers. A string is modelled as a list of code units
  (\<open>string\<close>); the model is meant for ASCII text, on which \<open>toUpperCase\<close> below is
  exactly \<^verbatim>\<open>String.prototype.toUpperCase\<close>. A number is an integer or \<^verbatim>\<open>NaN\<close>
  (which \<^verbatim>\<open>"".charCodeAt(0)\<close> produces); \<^verbatim>\<open>undefined\<close> is \<open>None\<close>; a thrown
  exception is a value of type \<open>error\<close>.
\<close>

datatype number = Num int | NaN

datatype error = TypeError | Error string

text \<open>Arithmetic and comparison on numbers: \<^verbatim>\<open>NaN\<close> is absorbing, every comparison with it is false.\<close>

fun num_add :: "number \<Rightarrow> number \<Rightarrow> number" where
  "num_add (Num a) (Num b) = Num (a + b)"
| "num_add _ _ = NaN"

fun num_sub :: "number \<Rightarrow> number \<Rightarrow> number" where
  "num_sub (Num a) (Num b) = Num (a - b)"
| "num_sub _ _ = NaN"

text \<open>\<^verbatim>\<open>x % 26\<close>: the remainder of truncated division, with the sign of the dividend.\<close>

fun num_rem26 :: "number \<Rightarrow> number" where
  "num_rem26 (Num a) = Num (sgn a * (\<bar>a\<bar> mod 26))"
| "num_rem26 NaN = NaN"

fun num_lt :: "number \<Rightarrow> number \<Rightarrow> bool" where
  "num_lt (Num a) (Num b) = (a < b)"
| "num_lt _ _ = False"

definition ALPHABET :: string where
  "ALPHABET = ''ABCDEFGHIJKLMNOPQRSTUVWXYZ''"

text \<open>\<^verbatim>\<open>s[n]\<close>: a one-unit string, or \<^verbatim>\<open>undefined\<close> when \<open>n\<close> is not an index of \<open>s\<close>.\<close>

fun charAt :: "string \<Rightarrow> number \<Rightarrow> string option" where
  "charAt s (Num i) = (if 0 \<le> i \<and> i < int (length s) then Some [s ! nat i] else None)"
| "charAt s NaN = None"

text \<open>\<^verbatim>\<open>s.charCodeAt(0)\<close>\<close>

fun charCodeAt0 :: "string \<Rightarrow> number" where
  "charCodeAt0 [] = NaN"
| "charCodeAt0 (c # cs) = Num (int (of_char c))"

definition toUpperCase_char :: "char \<Rightarrow> char" where
  "toUpperCase_char c =
     (let n = (of_char c :: nat) in if 97 \<le> n \<and> n \<le> 122 then char_of (n - 32) else c)"

definition toUpperCase :: "string \<Rightarrow> string" where
  "toUpperCase s = map toUpperCase_char s"

text \<open>\<^verbatim>\<open>s.includes(sub)\<close>: \<open>sub\<close> occurs in \<open>s\<close> as a contiguous substring.\<close>

fun startsWith :: "string \<Rightarrow> string \<Rightarrow> bool" where
  "startsWith s [] = True"
| "startsWith [] (c # cs) = False"
| "startsWith (x # xs) (c # cs) = (x = c \<and> startsWith xs cs)"

fun includes_str :: "string \<Rightarrow> string \<Rightarrow> bool" where
  "includes_str [] sub = (sub = [])"
| "includes_str (x # xs) sub = (startsWith (x # xs) sub \<or> includes_str xs sub)"

text \<open>Sequencing of computations that may throw.\<close>

fun andThen :: "error + 'a \<Rightarrow> ('a \<Rightarrow> error + 'b) \<Rightarrow> error + 'b" where
  "andThen (Inl e) f = Inl e"
| "andThen (Inr x) f = f x"

text \<open>Calling a method on a value that may be \<^verbatim>\<open>undefined\<close> throws a \<^verbatim>\<open>TypeError\<close>.\<close>

fun defined :: "'a option \<Rightarrow> error + 'a" where
  "defined None = Inl TypeError"
| "defined (Some x) = Inr x"

text \<open>
  A JavaScript array with holes, as \<^verbatim>\<open>new Array(26)\<close> creates it. Writing at an index past
  the end extends the array; a negative or \<^verbatim>\<open>NaN\<close> index sets a plain property and leaves
  the elements alone. \<^verbatim>\<open>join("")\<close> prints a hole or \<^verbatim>\<open>undefined\<close> as the empty string.
\<close>

fun array_set :: "'a option list \<Rightarrow> number \<Rightarrow> 'a option \<Rightarrow> 'a option list" where
  "array_set xs (Num i) v =
     (if i < 0 then xs
      else if nat i < length xs then xs[nat i := v]
      else xs @ replicate (nat i - length xs) None @ [v])"
| "array_set xs NaN v = xs"

definition join :: "string option list \<Rightarrow> string" where
  "join xs = concat (map (\<lambda>x. case x of None \<Rightarrow> [] | Some s \<Rightarrow> s) xs)"

section \<open>Reflector\<close>

record Reflector =
  wiring :: string

definition Reflector_new :: "string \<Rightarrow> error + Reflector" where
  "Reflector_new w =
     (if length w \<noteq> 26 then Inl (Error ''Reflector wiring must have 26 letters'')
      else Inr \<lparr>Reflector.wiring = toUpperCase w\<rparr>)"

definition refletir :: "Reflector \<Rightarrow> string \<Rightarrow> string option" where
  "refletir rf letra =
     (let idx = num_sub (charCodeAt0 letra) (Num 65)
      in if num_lt idx (Num 0) \<or> num_lt (Num 25) idx then Some letra
         else charAt (Reflector.wiring rf) idx)"

section \<open>Rotor\<close>

record Rotor =
  wiring :: string
  notchChar :: string
  posicao :: number
  inverseWiring :: string

text \<open>
  \<^verbatim>\<open>_calcularInverseWiring\<close>: the loop \<^verbatim>\<open>for (let i = 0; i < 26; i++)\<close> runs over the
  indices still to visit.
\<close>

fun calcularInverseWiring_loop ::
  "string \<Rightarrow> nat list \<Rightarrow> string option list \<Rightarrow> error + string option list" where
  "calcularInverseWiring_loop w [] arr = Inr arr"
| "calcularInverseWiring_loop w (i # rest) arr =
     andThen (defined (charAt w (Num (int i)))) (\<lambda>saida.
       let idxSaida = num_sub (charCodeAt0 saida) (Num 65)
       in calcularInverseWiring_loop w rest
            (array_set arr idxSaida (charAt ALPHABET (Num (int i)))))"

definition calcularInverseWiring :: "string \<Rightarrow> error + string" where
  "calcularInverseWiring w =
     andThen (calcularInverseWiring_loop w [0..<26] (replicate 26 None)) (\<lambda>arr. Inr (join arr))"

definition Rotor_new :: "string \<Rightarrow> string \<Rightarrow> number \<Rightarrow> error + Rotor" where
  "Rotor_new w notch posicaoInicial =
     (if length w \<noteq> 26 then Inl (Error ''Rotor wiring must have 26 letters'')
      else andThen (calcularInverseWiring (toUpperCase w)) (\<lambda>inverse_w.
        Inr \<lparr>Rotor.wiring = toUpperCase w, notchChar = toUpperCase notch,
             posicao = num_rem26 posicaoInicial, inverseWiring = inverse_w\<rparr>))"

definition girar :: "Rotor \<Rightarrow> Rotor" where
  "girar r = r\<lparr>posicao := num_rem26 (num_add (posicao r) (Num 1))\<rparr>"

definition estaNoNotch :: "Rotor \<Rightarrow> bool" where
  "estaNoNotch r = (charAt ALPHABET (posicao r) = Some (notchChar r))"

definition passarParaFrente :: "Rotor \<Rightarrow> string \<Rightarrow> error + string option" where
  "passarParaFrente r letra =
     (let idxEntrada = num_sub (charCodeAt0 letra) (Num 65);
          idxComOffset = num_rem26 (num_add (num_add idxEntrada (posicao r)) (Num 26))
      in andThen (defined (charAt (Rotor.wiring r) idxComOffset)) (\<lambda>letraSaida.
           let idxSaida = num_sub (charCodeAt0 letraSaida) (Num 65);
               idxFinal = num_rem26 (num_add (num_sub idxSaida (posicao r)) (Num 26))
           in Inr (charAt ALPHABET idxFinal)))"

definition passarParaTras :: "Rotor \<Rightarrow> string \<Rightarrow> error + string option" where
  "passarParaTras r letra =
     (let idxEntrada = num_sub (charCodeAt0 letra) (Num 65);
          idxComOffset = num_rem26 (num_add (num_add idxEntrada (posicao r)) (Num 26))
      in andThen (defined (charAt (inverseWiring r) idxComOffset)) (\<lambda>letraSaida.
           let idxSaida = num_sub (charCodeAt0 letraSaida) (Num 65);
               idxFinal = num_rem26 (num_add (num_sub idxSaida (posicao r)) (Num 26))
           in Inr (charAt ALPHABET idxFinal)))"

definition setPosicaoPorLetra :: "Rotor \<Rightarrow> string \<Rightarrow> error + Rotor" where
  "setPosicaoPorLetra r letra =
     (let idx = num_sub (charCodeAt0 (toUpperCase letra)) (Num 65)
      in if num_lt idx (Num 0) \<or> num_lt (Num 25) idx then Inl (Error ''Invalid position'')
         else Inr (r\<lparr>posicao := idx\<rparr>))"

definition getPosicaoLetra :: "Rotor \<Rightarrow> string option" where
  "getPosicaoLetra r = charAt ALPHABET (posicao r)"

section \<open>Plugboard\<close>

record Plugboard =
  mapa :: "string \<rightharpoonup> string"

fun identidade :: "string \<Rightarrow> (string \<rightharpoonup> string) \<Rightarrow> (string \<rightharpoonup> string)" where
  "identidade [] m = m"
| "identidade (letra # rest) m = identidade rest (m([letra] \<mapsto> [letra]))"

fun aplicarPares :: "string list \<Rightarrow> (string \<rightharpoonup> string) \<Rightarrow> (string \<rightharpoonup> string)" where
  "aplicarPares [] m = m"
| "aplicarPares (par # pares) m =
     (if length par \<noteq> 2 then aplicarPares pares m
      else let a = toUpperCase [par ! 0]; b = toUpperCase [par ! 1]
           in if \<not> includes_str ALPHABET a \<or> \<not> includes_str ALPHABET b then aplicarPares pares m
              else aplicarPares pares ((m(a \<mapsto> b))(b \<mapsto> a)))"

definition Plugboard_new :: "string list \<Rightarrow> Plugboard" where
  "Plugboard_new pares = \<lparr>mapa = aplicarPares pares (identidade ALPHABET Map.empty)\<rparr>"

definition trocar :: "Plugboard \<Rightarrow> string \<Rightarrow> string" where
  "trocar pb letra =
     (let l = toUpperCase letra
      in if \<not> includes_str ALPHABET l then letra
         else (case mapa pb l of Some v \<Rightarrow> v | None \<Rightarrow> l))"

section \<open>Enigma\<close>

datatype component =
    comp_input | comp_plugboard_in | comp_rotor_r | comp_rotor_m | comp_rotor_l
  | comp_reflector | comp_rotor_l_back | comp_rotor_m_back | comp_rotor_r_back
  | comp_plugboard_out | comp_output

record SignalStep =
  component :: component
  inputLetter :: string
  outputLetter :: string
  inputIndex :: number
  outputIndex :: number

record SignalPath =
  steps :: "SignalStep list"
  inputLetter :: string
  outputLetter :: string

text \<open>
  A machine owns its rotors, reflector and plugboard: the factories build fresh objects
  for every machine, so the objects are values of the machine state here.
\<close>

record Enigma =
  reflector :: Reflector
  rotors :: "Rotor list"
  plugboard :: Plugboard

definition Enigma_new :: "Reflector \<Rightarrow> Rotor list \<Rightarrow> Plugboard \<Rightarrow> error + Enigma" where
  "Enigma_new rf rs pb =
     (if length rs \<noteq> 3 then Inl (Error ''Use exactly 3 rotors for M3 version'')
      else Inr \<lparr>reflector = rf, rotors = rs, plugboard = pb\<rparr>)"

text \<open>\<^verbatim>\<open>xs[i]\<close> on an array: \<^verbatim>\<open>undefined\<close> past the end.\<close>

definition nth_opt :: "'a list \<Rightarrow> nat \<Rightarrow> 'a option" where
  "nth_opt xs i = (if i < length xs then Some (xs ! i) else None)"

text \<open>
  A method that mutates the machine and may throw returns the outcome together with
  the machine as the call leaves it, so that what was already written before a throw
  stays visible.
\<close>

fun setPosicoes_loop :: "nat list \<Rightarrow> string list \<Rightarrow> Enigma \<Rightarrow> (error + unit) \<times> Enigma" where
  "setPosicoes_loop [] posicoes m = (Inr (), m)"
| "setPosicoes_loop (i # rest) posicoes m =
     (case nth_opt (rotors m) i of
        None \<Rightarrow> (Inl TypeError, m)
      | Some r \<Rightarrow>
          (case nth_opt posicoes i of
             None \<Rightarrow> (Inl TypeError, m)
           | Some letra \<Rightarrow>
               (case setPosicaoPorLetra r letra of
                  Inl e \<Rightarrow> (Inl e, m)
                | Inr r' \<Rightarrow> setPosicoes_loop rest posicoes (m\<lparr>rotors := (rotors m)[i := r']\<rparr>))))"

definition setPosicoes :: "Enigma \<Rightarrow> string list \<Rightarrow> (error + unit) \<times> Enigma" where
  "setPosicoes m posicoes =
     (if length posicoes \<noteq> 3 then (Inl (Error ''3 positions required (left, middle, right)''), m)
      else setPosicoes_loop [0, 1, 2] posicoes m)"

definition getPosicoes :: "Enigma \<Rightarrow> string option list" where
  "getPosicoes m = map getPosicaoLetra (rotors m)"

definition stepRotores :: "Enigma \<Rightarrow> (error + unit) \<times> Enigma" where
  "stepRotores m =
     (case rotors m of
        rotorEsq # rotorMeio # rotorDir # rest \<Rightarrow>
          let meioNoNotch = estaNoNotch rotorMeio;
              dirNoNotch = estaNoNotch rotorDir;
              rotorMeio1 = (if meioNoNotch then girar rotorMeio else rotorMeio);
              rotorEsq1 = (if meioNoNotch then girar rotorEsq else rotorEsq);
              rotorMeio2 = (if dirNoNotch then girar rotorMeio1 else rotorMeio1);
              rotorDir1 = girar rotorDir
          in (Inr (), m\<lparr>rotors := rotorEsq1 # rotorMeio2 # rotorDir1 # rest\<rparr>)
      | _ \<Rightarrow> (Inl TypeError, m))"

definition passo :: "component \<Rightarrow> string \<Rightarrow> string \<Rightarrow> SignalStep" where
  "passo stage prev c =
     \<lparr>component = stage, inputLetter = prev, outputLetter = c,
      inputIndex = num_sub (charCodeAt0 prev) (Num 65),
      outputIndex = num_sub (charCodeAt0 c) (Num 65)\<rparr>"

text \<open>
  The body of \<^verbatim>\<open>encipherCharWithPath\<close> after the rotors have stepped: it reads the
  machine and writes nothing. Pushing a step calls \<^verbatim>\<open>c.charCodeAt(0)\<close>, which throws
  when a stage has returned \<^verbatim>\<open>undefined\<close>.
\<close>

definition rota :: "Enigma \<Rightarrow> string \<Rightarrow> error + SignalPath" where
  "rota m c0 =
     (case rotors m of
        rotorEsq # rotorMeio # rotorDir # rest \<Rightarrow>
          let c1 = trocar (plugboard m) c0
          in andThen (andThen (passarParaFrente rotorDir c1) defined) (\<lambda>c2.
             andThen (andThen (passarParaFrente rotorMeio c2) defined) (\<lambda>c3.
             andThen (andThen (passarParaFrente rotorEsq c3) defined) (\<lambda>c4.
             andThen (defined (refletir (reflector m) c4)) (\<lambda>c5.
             andThen (andThen (passarParaTras rotorEsq c5) defined) (\<lambda>c6.
             andThen (andThen (passarParaTras rotorMeio c6) defined) (\<lambda>c7.
             andThen (andThen (passarParaTras rotorDir c7) defined) (\<lambda>c8.
               let c9 = trocar (plugboard m) c8
               in Inr \<lparr>steps =
                         [passo comp_input c0 c0, passo comp_plugboard_in c0 c1,
                          passo comp_rotor_r c1 c2, passo comp_rotor_m c2 c3,
                          passo comp_rotor_l c3 c4, passo comp_reflector c4 c5,
                          passo comp_rotor_l_back c5 c6, passo comp_rotor_m_back c6 c7,
                          passo comp_rotor_r_back c7 c8, passo comp_plugboard_out c8 c9,
                          passo comp_output c9 c9],
                       inputLetter = c0, outputLetter = c9\<rparr>)))))))
      | _ \<Rightarrow> Inl TypeError)"

definition encipherCharWithPath :: "Enigma \<Rightarrow> string \<Rightarrow> (error + SignalPath) \<times> Enigma" where
  "encipherCharWithPath m letra =
     (let c = toUpperCase letra
      in if \<not> includes_str ALPHABET c
         then (Inr \<lparr>steps = [], inputLetter = letra, outputLetter = letra\<rparr>, m)
         else (case stepRotores m of
                 (Inl e, m') \<Rightarrow> (Inl e, m')
               | (Inr u, m') \<Rightarrow> (rota m' c, m')))"

definition encipherChar :: "Enigma \<Rightarrow> string \<Rightarrow> (error + string) \<times> Enigma" where
  "encipherChar m letra =
     (case encipherCharWithPath m letra of
        (Inl e, m') \<Rightarrow> (Inl e, m')
      | (Inr result, m') \<Rightarrow> (Inr (SignalPath.outputLetter result), m'))"



section \<open>Standard rotors and reflectors, and building a machine\<close>

definition ROTOR_I :: "error + Rotor" where
  "ROTOR_I = Rotor_new ''EKMFLGDQVZNTOWYHXUSPAIBRCJ'' ''Q'' (Num 0)"

definition ROTOR_II :: "error + Rotor" where
  "ROTOR_II = Rotor_new ''AJDKSIRUXBLHWTMCQGZNPYFVOE'' ''E'' (Num 0)"

definition ROTOR_III :: "error + Rotor" where
  "ROTOR_III = Rotor_new ''BDFHJLCPRTXVZNYEIWGAKMUSQO'' ''V'' (Num 0)"

definition ROTOR_IV :: "error + Rotor" where
  "ROTOR_IV = Rotor_new ''ESOVPZJAYQUIRHXLNFTGKDCMWB'' ''J'' (Num 0)"

definition ROTOR_V :: "error + Rotor" where
  "ROTOR_V = Rotor_new ''VZBRGITYUPSDNHLXAWMJQOFECK'' ''Z'' (Num 0)"

definition REFLECTOR_B :: "error + Reflector" where
  "REFLECTOR_B = Reflector_new ''YRUHQSLDPXNGOKMIEBFZCWVJAT''"

definition REFLECTOR_C :: "error + Reflector" where
  "REFLECTOR_C = Reflector_new ''FVPJIAOYEDRZXWGCTKUQSBNMHL''"

text \<open>The keys of \<^verbatim>\<open>ROTOR_CONFIGS\<close> and \<^verbatim>\<open>REFLECTOR_CONFIGS\<close>, and the factory each key selects.\<close>

datatype RotorType = Rotor_I | Rotor_II | Rotor_III | Rotor_IV | Rotor_V

datatype ReflectorType = Reflector_B | Reflector_C

fun ROTOR_CONFIGS :: "RotorType \<Rightarrow> error + Rotor" where
  "ROTOR_CONFIGS Rotor_I = ROTOR_I"
| "ROTOR_CONFIGS Rotor_II = ROTOR_II"
| "ROTOR_CONFIGS Rotor_III = ROTOR_III"
| "ROTOR_CONFIGS Rotor_IV = ROTOR_IV"
| "ROTOR_CONFIGS Rotor_V = ROTOR_V"

fun REFLECTOR_CONFIGS :: "ReflectorType \<Rightarrow> error + Reflector" where
  "REFLECTOR_CONFIGS Reflector_B = REFLECTOR_B"
| "REFLECTOR_CONFIGS Reflector_C = REFLECTOR_C"

fun map_factory :: "('a \<Rightarrow> error + 'b) \<Rightarrow> 'a list \<Rightarrow> error + 'b list" where
  "map_factory f [] = Inr []"
| "map_factory f (x # xs) = andThen (f x) (\<lambda>y. andThen (map_factory f xs) (\<lambda>ys. Inr (y # ys)))"

text \<open>
  \<^verbatim>\<open>initEnigma\<close> of the machine component (and the command-line test of
  \<^verbatim>\<open>src/enigma/enigma.js\<close>): build the rotors, the reflector and the plugboard from the
  configuration, build the machine, set the positions.
\<close>

definition initEnigma ::
  "RotorType list \<Rightarrow> ReflectorType \<Rightarrow> string list \<Rightarrow> string list \<Rightarrow> error + Enigma" where
  "initEnigma config_rotors config_reflector config_positions config_plugboardPairs =
     andThen (map_factory ROTOR_CONFIGS config_rotors) (\<lambda>rs.
     andThen (REFLECTOR_CONFIGS config_reflector) (\<lambda>rf.
     andThen (Enigma_new rf rs (Plugboard_new config_plugboardPairs)) (\<lambda>enigma.
       case setPosicoes enigma config_positions of
         (Inl e, enigma') \<Rightarrow> Inl e
       | (Inr u, enigma') \<Rightarrow> Inr enigma')))"

section \<open>The refactored position setter\<close>

text \<open>
  The refactored version of the same library (\<^verbatim>\<open>Rotor.setPosition\<close>, with
  \<^verbatim>\<open>isValidLetter\<close>) validates the argument before it writes the position.
\<close>

definition isValidLetter :: "string \<Rightarrow> bool" where
  "isValidLetter ch = (length ch = 1 \<and> includes_str ALPHABET (toUpperCase ch))"

definition setPosition :: "Rotor \<Rightarrow> string \<Rightarrow> error + Rotor" where
  "setPosition r letter =
     (if \<not> isValidLetter letter then Inl (Error (''Invalid position letter: '' @ letter))
      else Inr (r\<lparr>posicao := num_sub (charCodeAt0 (toUpperCase letter)) (Num 65)\<rparr>))"

section \<open>Well-formed components\<close>

text \<open>A reflector that pairs the letters up: every letter goes to another letter, and back.\<close>

definition reflector_ok :: "Reflector \<Rightarrow> bool" where
  "reflector_ok rf =
     (\<forall>x\<in>set ALPHABET. \<exists>y\<in>set ALPHABET.
        y \<noteq> x \<and> refletir rf [x] = Some [y] \<and> refletir rf [y] = Some [x])"

text \<open>The index of a letter: \<^verbatim>\<open>letra.charCodeAt(0) - 65\<close> on a letter of the alphabet.\<close>

definition idx :: "char \<Rightarrow> nat" where
  "idx c = of_char c - 65"

text \<open>
  A rotor as the constructor builds it from a wiring that is a permutation of the
  alphabet, at a position between 0 and 25.
\<close>

definition rotor_ok :: "Rotor \<Rightarrow> bool" where
  "rotor_ok r =
     (length (Rotor.wiring r) = 26 \<and> distinct (Rotor.wiring r)
      \<and> set (Rotor.wiring r) = set ALPHABET
      \<and> calcularInverseWiring (Rotor.wiring r) = Inr (inverseWiring r)
      \<and> (\<exists>p<26. posicao r = Num (int p)))"

text \<open>A plugboard whose map swaps letters in pairs (or leaves them alone).\<close>

definition plugboard_ok :: "Plugboard \<Rightarrow> bool" where
  "plugboard_ok pb =
     (\<forall>x\<in>set ALPHABET. \<exists>y\<in>set ALPHABET. mapa pb [x] = Some [y] \<and> mapa pb [y] = Some [x])"

text \<open>A plugboard whose map sends every letter to a letter.\<close>

definition plugboard_total :: "Plugboard \<Rightarrow> bool" where
  "plugboard_total pb = (\<forall>x\<in>set ALPHABET. \<exists>y\<in>set ALPHABET. mapa pb [x] = Some [y])"

text \<open>
  A machine with three well-formed rotors, a pairing reflector and a plugboard that maps
  letters to letters; \<open>enigma_ok\<close> asks in addition that the plugboard swaps in pairs.
\<close>

definition enigma_sane :: "Enigma \<Rightarrow> bool" where
  "enigma_sane m =
     (length (rotors m) = 3 \<and> list_all rotor_ok (rotors m)
      \<and> reflector_ok (reflector m) \<and> plugboard_total (plugboard m))"

definition enigma_ok :: "Enigma \<Rightarrow> bool" where
  "enigma_ok m = (enigma_sane m \<and> plugboard_ok (plugboard m))"

text \<open>The letters that a pair string connects; none when the constructor skips the pair.\<close>

definition letrasDoPar :: "string \<Rightarrow> string" where
  "letrasDoPar par =
     (if length par \<noteq> 2 then []
      else let a = toUpperCase [par ! 0]; b = toUpperCase [par ! 1]
           in if \<not> includes_str ALPHABET a \<or> \<not> includes_str ALPHABET b then [] else a @ b)"

text \<open>No letter is used by two pairs of the list.\<close>

fun paresDisjuntos :: "string list \<Rightarrow> bool" where
  "paresDisjuntos [] = True"
| "paresDisjuntos (par # pares) =
     (list_all (\<lambda>q. list_all (\<lambda>c. c \<notin> set (letrasDoPar par)) (letrasDoPar q)) pares
      \<and> paresDisjuntos pares)"

definition LOWERCASE :: string where
  "LOWERCASE = ''abcdefghijklmnopqrstuvwxyz''"

text \<open>The standard rotors I, II, III and reflector B as the factories return them.\<close>

abbreviation rotor_I_at :: "number \<Rightarrow> Rotor" where
  "rotor_I_at p \<equiv> \<lparr>Rotor.wiring = ''EKMFLGDQVZNTOWYHXUSPAIBRCJ'', notchChar = ''Q'',
     posicao = p, inverseWiring = ''UWYGADFPVZBECKMTHXSLRINQOJ''\<rparr>"

abbreviation rotor_II_at :: "number \<Rightarrow> Rotor" where
  "rotor_II_at p \<equiv> \<lparr>Rotor.wiring = ''AJDKSIRUXBLHWTMCQGZNPYFVOE'', notchChar = ''E'',
     posicao = p, inverseWiring = ''AJPCZWRLFBDKOTYUQGENHXMIVS''\<rparr>"

abbreviation rotor_III_at :: "number \<Rightarrow> Rotor" where
  "rotor_III_at p \<equiv> \<lparr>Rotor.wiring = ''BDFHJLCPRTXVZNYEIWGAKMUSQO'', notchChar = ''V'',
     posicao = p, inverseWiring = ''TAGBPCSDQEUFVNZHYIXJWLRKOM''\<rparr>"

abbreviation reflector_B_val :: Reflector where
  "reflector_B_val \<equiv> \<lparr>Reflector.wiring = ''YRUHQSLDPXNGOKMIEBFZCWVJAT''\<rparr>"

text \<open>The machine with rotors I, II, III, reflector B, given positions and plugboard pairs.\<close>

abbreviation maquina :: "number \<Rightarrow> number \<Rightarrow> number \<Rightarrow> string list \<Rightarrow> Enigma" where
  "maquina pl pm pr pares \<equiv>
     \<lparr>reflector = reflector_B_val,
      rotors = [rotor_I_at pl, rotor_II_at pm, rotor_III_at pr],
      plugboard = Plugboard_new pares\<rparr>"

section \<open>Reflector: involution without fixed point\<close>

lemma toUpperCase_reflector_literals:
  "toUpperCase ''YRUHQSLDPXNGOKMIEBFZCWVJAT'' = ''YRUHQSLDPXNGOKMIEBFZCWVJAT''"
  "toUpperCase ''FVPJIAOYEDRZXWGCTKUQSBNMHL'' = ''FVPJIAOYEDRZXWGCTKUQSBNMHL''"
  by (simp_all add: toUpperCase_def toUpperCase_char_def)

lemma REFLECTOR_B_eq:
  "REFLECTOR_B = Inr \<lparr>Reflector.wiring = ''YRUHQSLDPXNGOKMIEBFZCWVJAT''\<rparr>"
  by (simp add: REFLECTOR_B_def Reflector_new_def toUpperCase_reflector_literals)

lemma REFLECTOR_C_eq:
  "REFLECTOR_C = Inr \<lparr>Reflector.wiring = ''FVPJIAOYEDRZXWGCTKUQSBNMHL''\<rparr>"
  by (simp add: REFLECTOR_C_def Reflector_new_def toUpperCase_reflector_literals)

lemma reflector_B_ok: "reflector_ok \<lparr>Reflector.wiring = ''YRUHQSLDPXNGOKMIEBFZCWVJAT''\<rparr>"
  by (simp add: reflector_ok_def ALPHABET_def refletir_def)

lemma reflector_C_ok: "reflector_ok \<lparr>Reflector.wiring = ''FVPJIAOYEDRZXWGCTKUQSBNMHL''\<rparr>"
  by (simp add: reflector_ok_def ALPHABET_def refletir_def)

lemma reflector_B_no_fixed_point: "list_all2 (\<noteq>) ''YRUHQSLDPXNGOKMIEBFZCWVJAT'' ALPHABET"
  by (simp add: ALPHABET_def)

lemma reflector_C_no_fixed_point: "list_all2 (\<noteq>) ''FVPJIAOYEDRZXWGCTKUQSBNMHL'' ALPHABET"
  by (simp add: ALPHABET_def)

lemma REFLECTOR_CONFIGS_ok: "\<exists>rf. REFLECTOR_CONFIGS t = Inr rf \<and> reflector_ok rf"
  by (cases t) (simp_all add: REFLECTOR_B_eq REFLECTOR_C_eq reflector_B_ok reflector_C_ok)

text \<open>
  C4. For the reflectors B and C and every letter \<open>x\<close> of the alphabet, reflecting twice
  gives \<open>x\<close> back, and no position of the wiring holds the letter of the alphabet at that
  position.
\<close>

theorem reflector_involution_no_fixed_point:
  assumes "x \<in> set ALPHABET"
  shows "\<exists>rf y. REFLECTOR_CONFIGS t = Inr rf \<and> refletir rf [x] = Some y \<and> refletir rf y = Some [x]
           \<and> length (Reflector.wiring rf) = 26
           \<and> (\<forall>i<26. Reflector.wiring rf ! i \<noteq> ALPHABET ! i)"
proof (cases t)
  case Reflector_B
  let ?rf = "\<lparr>Reflector.wiring = ''YRUHQSLDPXNGOKMIEBFZCWVJAT''\<rparr>"
  from reflector_B_ok assms obtain y where "refletir ?rf [x] = Some [y]" "refletir ?rf [y] = Some [x]"
    unfolding reflector_ok_def by blast
  moreover have "\<forall>i<26. Reflector.wiring ?rf ! i \<noteq> ALPHABET ! i"
    using reflector_B_no_fixed_point by (simp add: list_all2_conv_all_nth)
  ultimately show ?thesis using Reflector_B by (simp add: REFLECTOR_B_eq)
next
  case Reflector_C
  let ?rf = "\<lparr>Reflector.wiring = ''FVPJIAOYEDRZXWGCTKUQSBNMHL''\<rparr>"
  from reflector_C_ok assms obtain y where "refletir ?rf [x] = Some [y]" "refletir ?rf [y] = Some [x]"
    unfolding reflector_ok_def by blast
  moreover have "\<forall>i<26. Reflector.wiring ?rf ! i \<noteq> ALPHABET ! i"
    using reflector_C_no_fixed_point by (simp add: list_all2_conv_all_nth)
  ultimately show ?thesis using Reflector_C by (simp add: REFLECTOR_C_eq)
qed

theorem reflector_involution_no_fixed_point_witness:
  "CHR ''A'' \<in> set ALPHABET \<and>
   (\<exists>rf y. REFLECTOR_CONFIGS Reflector_B = Inr rf \<and> refletir rf ''A'' = Some y \<and> refletir rf y = Some ''A''
      \<and> length (Reflector.wiring rf) = 26 \<and> (\<forall>i<26. Reflector.wiring rf ! i \<noteq> ALPHABET ! i))"
  using reflector_involution_no_fixed_point [of "CHR ''A''" Reflector_B]
  by (simp add: ALPHABET_def)

section \<open>Setting a rotor position\<close>

text \<open>
  C7. \<^verbatim>\<open>setPosicaoPorLetra\<close> looks at the first code unit only: given the two-letter
  string \<^verbatim>\<open>"AB"\<close> it raises nothing and sets position 0, and given the empty string it
  raises nothing and sets the position to \<^verbatim>\<open>NaN\<close>. The refactored \<^verbatim>\<open>setPosition\<close>
  rejects both.
\<close>

theorem setPosicaoPorLetra_accepts_non_letters:
  "setPosicaoPorLetra r ''AB'' = Inr (r\<lparr>posicao := Num 0\<rparr>) \<and>
   setPosicaoPorLetra r '''' = Inr (r\<lparr>posicao := NaN\<rparr>) \<and>
   setPosition r ''AB'' = Inl (Error ''Invalid position letter: AB'') \<and>
   setPosition r '''' = Inl (Error ''Invalid position letter: '')"
  by (simp add: setPosicaoPorLetra_def setPosition_def isValidLetter_def
      toUpperCase_def toUpperCase_char_def)


section \<open>Letters and their indices\<close>

lemma length_ALPHABET: "length ALPHABET = 26"
  by (simp add: ALPHABET_def)

lemma distinct_ALPHABET: "distinct ALPHABET"
  by (simp add: ALPHABET_def)

lemma of_char_ALPHABET: "c \<in> set ALPHABET \<Longrightarrow> 65 \<le> (of_char c :: nat) \<and> (of_char c :: nat) \<le> 90"
  by (auto simp: ALPHABET_def)

lemma ALPHABET_nth_idx: "c \<in> set ALPHABET \<Longrightarrow> ALPHABET ! idx c = c"
  by (auto simp: ALPHABET_def idx_def)

lemma idx_less: "c \<in> set ALPHABET \<Longrightarrow> idx c < 26"
  using of_char_ALPHABET [of c] unfolding idx_def by linarith

lemma idx_ALPHABET_nth: 
  assumes "i < 26" shows "idx (ALPHABET ! i) = i"
proof -
  have mem: "ALPHABET ! i \<in> set ALPHABET" using assms by (simp add: length_ALPHABET)
  then have "ALPHABET ! idx (ALPHABET ! i) = ALPHABET ! i" by (rule ALPHABET_nth_idx)
  moreover have "idx (ALPHABET ! i) < length ALPHABET" using idx_less [OF mem] by (simp add: length_ALPHABET)
  ultimately show ?thesis using assms distinct_ALPHABET
    by (simp add: nth_eq_iff_index_eq length_ALPHABET)
qed

lemma idx_inj: "c \<in> set ALPHABET \<Longrightarrow> d \<in> set ALPHABET \<Longrightarrow> idx c = idx d \<Longrightarrow> c = d"
  by (metis ALPHABET_nth_idx)

lemma charAt_nat: "i < length s \<Longrightarrow> charAt s (Num (int i)) = Some [s ! i]"
  by simp

lemma index_of_letter: "c \<in> set ALPHABET \<Longrightarrow> num_sub (charCodeAt0 [c]) (Num 65) = Num (int (idx c))"
  using of_char_ALPHABET [of c] by (simp add: idx_def)

lemma num_rem26_nat: "num_rem26 (Num (int n)) = Num (int (n mod 26))"
  by (cases "n = 0") (simp_all add: zmod_int)

lemma includes_str_single: "includes_str s [c] = (c \<in> set s)"
  by (induction s) auto

lemma toUpperCase_char_letter: "c \<in> set ALPHABET \<Longrightarrow> toUpperCase_char c = c"
  using of_char_ALPHABET [of c] by (simp add: toUpperCase_char_def)

section \<open>One pass through a rotor\<close>

lemma rem26_add:
  "num_rem26 (num_add (num_add (Num (int a)) (Num (int p))) (Num 26)) = Num (int ((a + p) mod 26))"
proof -
  have "int a + int p + 26 = int (a + p + 26)" by simp
  then have "num_rem26 (num_add (num_add (Num (int a)) (Num (int p))) (Num 26)) = Num (int ((a + p + 26) mod 26))"
    by (simp only: num_add.simps num_rem26_nat)
  then show ?thesis by simp
qed

lemma rem26_sub:
  assumes "p < 26"
  shows "num_rem26 (num_add (num_sub (Num (int a)) (Num (int p))) (Num 26)) = Num (int ((a + 26 - p) mod 26))"
proof -
  have "int a - int p + 26 = int (a + 26 - p)" using assms by simp
  then show ?thesis
    by (simp only: num_add.simps num_sub.simps num_rem26_nat)
qed

lemma passarParaFrente_letter:
  assumes "length (Rotor.wiring r) = 26" "set (Rotor.wiring r) \<subseteq> set ALPHABET"
    and "posicao r = Num (int p)" "p < 26" "x \<in> set ALPHABET"
  shows "passarParaFrente r [x] =
           Inr (Some [ALPHABET ! ((idx (Rotor.wiring r ! ((idx x + p) mod 26)) + 26 - p) mod 26)])"
proof -
  let ?j = "(idx x + p) mod 26"
  have j: "?j < 26" by simp
  have mem: "Rotor.wiring r ! ?j \<in> set ALPHABET"
    using assms(1,2) j by (metis nth_mem subsetD)
  have ch: "charAt (Rotor.wiring r) (Num (int ?j)) = Some [Rotor.wiring r ! ?j]"
    using j assms(1) by simp
  show ?thesis
    unfolding passarParaFrente_def Let_def
    by (simp only: index_of_letter [OF assms(5)] assms(3) rem26_add ch
        defined.simps andThen.simps index_of_letter [OF mem] rem26_sub [OF assms(4)])
       (simp add: length_ALPHABET)
qed

lemma passarParaTras_letter:
  assumes "length (inverseWiring r) = 26" "set (inverseWiring r) \<subseteq> set ALPHABET"
    and "posicao r = Num (int p)" "p < 26" "x \<in> set ALPHABET"
  shows "passarParaTras r [x] =
           Inr (Some [ALPHABET ! ((idx (inverseWiring r ! ((idx x + p) mod 26)) + 26 - p) mod 26)])"
proof -
  let ?j = "(idx x + p) mod 26"
  have j: "?j < 26" by simp
  have mem: "inverseWiring r ! ?j \<in> set ALPHABET"
    using assms(1,2) j by (metis nth_mem subsetD)
  have ch: "charAt (inverseWiring r) (Num (int ?j)) = Some [inverseWiring r ! ?j]"
    using j assms(1) by simp
  show ?thesis
    unfolding passarParaTras_def Let_def
    by (simp only: index_of_letter [OF assms(5)] assms(3) rem26_add ch
        defined.simps andThen.simps index_of_letter [OF mem] rem26_sub [OF assms(4)])
       (simp add: length_ALPHABET)
qed

subsection \<open>The inverse wiring table\<close>

lemma array_set_in_range: "n < length arr \<Longrightarrow> array_set arr (Num (int n)) v = arr[n := v]"
  by simp

lemma calcularInverseWiring_loop_fold:
  assumes "length w = 26" "set w \<subseteq> set ALPHABET"
  shows "\<forall>i\<in>set js. i < 26 \<Longrightarrow> length arr = 26 \<Longrightarrow>
         calcularInverseWiring_loop w js arr =
           Inr (fold (\<lambda>i a. a[idx (w ! i) := Some [ALPHABET ! i]]) js arr)"
proof (induction js arbitrary: arr)
  case Nil
  then show ?case by simp
next
  case (Cons i js)
  have i: "i < 26" using Cons.prems by simp
  have mem: "w ! i \<in> set ALPHABET" using assms i by (metis nth_mem subsetD)
  have k: "idx (w ! i) < length arr" using idx_less [OF mem] Cons.prems by simp
  have ch: "charAt w (Num (int i)) = Some [w ! i]" using i assms(1) by simp
  have al: "charAt ALPHABET (Num (int i)) = Some [ALPHABET ! i]" using i by (simp add: length_ALPHABET)
  have step: "calcularInverseWiring_loop w (i # js) arr =
        calcularInverseWiring_loop w js (arr[idx (w ! i) := Some [ALPHABET ! i]])"
    by (simp only: calcularInverseWiring_loop.simps ch defined.simps andThen.simps Let_def
        index_of_letter [OF mem] al array_set_in_range [OF k])
  have "calcularInverseWiring_loop w js (arr[idx (w ! i) := Some [ALPHABET ! i]]) =
          Inr (fold (\<lambda>i a. a[idx (w ! i) := Some [ALPHABET ! i]]) js (arr[idx (w ! i) := Some [ALPHABET ! i]]))"
    using Cons.IH [of "arr[idx (w ! i) := Some [ALPHABET ! i]]"] Cons.prems by simp
  then show ?case
    unfolding step by simp
qed

lemma fold_update_length: "length (fold (\<lambda>i a. a[k i := f i]) js arr) = length arr"
  by (induction js arbitrary: arr) simp_all

lemma fold_update_other:
  "n \<notin> k ` set js \<Longrightarrow> fold (\<lambda>i a. a[k i := f i]) js arr ! n = arr ! n"
  by (induction js arbitrary: arr) auto

lemma fold_update_nth:
  "distinct (map k js) \<Longrightarrow> i \<in> set js \<Longrightarrow> k i < length arr \<Longrightarrow>
   fold (\<lambda>i a. a[k i := f i]) js arr ! k i = f i"
proof (induction js arbitrary: arr)
  case Nil
  then show ?case by simp
next
  case (Cons j js)
  show ?case
  proof (cases "i = j")
    case True
    then have "k i \<notin> k ` set js" using Cons.prems(1) by auto
    then show ?thesis using True Cons.prems(3) by (simp add: fold_update_other)
  next
    case False
    then show ?thesis using Cons by simp
  qed
qed

lemma join_singletons: "join (map (\<lambda>c. Some [c]) cs) = cs"
  by (induction cs) (simp_all add: join_def)

lemma wiring_surj:
  assumes "length w = 26" "set w = set ALPHABET" "n < 26"
  shows "\<exists>i<26. idx (w ! i) = n"
proof -
  have "ALPHABET ! n \<in> set ALPHABET" using assms(3) by (simp add: length_ALPHABET)
  then have "ALPHABET ! n \<in> set w" by (simp only: assms(2))
  then obtain i where i: "i < length w" "w ! i = ALPHABET ! n" by (auto simp: in_set_conv_nth)
  have "idx (w ! i) = n" by (simp only: i(2) idx_ALPHABET_nth [OF assms(3)])
  moreover have "i < 26" using i(1) by (simp only: assms(1))
  ultimately show ?thesis by blast
qed

lemma wiring_inj:
  assumes "length w = 26" "distinct w" "set w = set ALPHABET"
  shows "inj_on (\<lambda>i. idx (w ! i)) {0..<26}"
proof (rule inj_onI)
  fix i j assume a: "i \<in> {0..<26}" "j \<in> {0..<26}" "idx (w ! i) = idx (w ! j)"
  have lt: "i < length w" "j < length w" using a(1,2) by (simp_all add: assms(1))
  have "w ! i \<in> set w" "w ! j \<in> set w" using lt by (simp_all only: nth_mem)
  then have "w ! i \<in> set ALPHABET" "w ! j \<in> set ALPHABET" by (simp_all only: assms(3))
  then have "w ! i = w ! j" using a(3) by (rule idx_inj)
  then show "i = j" using lt assms(2) by (simp add: nth_eq_iff_index_eq)
qed
lemma inverseWiring_spec:
  assumes "length w = 26" "distinct w" "set w = set ALPHABET" "calcularInverseWiring w = Inr v"
  shows "length v = 26 \<and> set v \<subseteq> set ALPHABET \<and> (\<forall>i<26. v ! idx (w ! i) = ALPHABET ! i)"
proof -
  define js :: "nat list" where "js = [0..<26]"
  have js_len: "length js = 26" and js_set: "set js = {0..<26}" and js_dist: "distinct js"
    unfolding js_def by simp_all
  have js_nth: "js ! n = n" if "n < 26" for n
    unfolding js_def using that by (simp only: nth_upt add_0 )
  let ?k = "\<lambda>i. idx (w ! i)"
  define arr where "arr = fold (\<lambda>i a. a[?k i := Some [ALPHABET ! i]]) js (replicate 26 None)"
  have sub: "set w \<subseteq> set ALPHABET" unfolding assms(3) by (rule subset_refl)
  have loop: "calcularInverseWiring_loop w js (replicate 26 None) = Inr arr"
    unfolding arr_def
    by (rule calcularInverseWiring_loop_fold [OF assms(1) sub]) (simp_all add: js_set)
  have v: "v = join arr"
    using assms(4) loop unfolding calcularInverseWiring_def js_def [symmetric] by simp
  have len: "length arr = 26" unfolding arr_def by (simp add: fold_update_length)
  have dist: "distinct (map ?k js)"
    using wiring_inj [OF assms(1,2,3)] js_dist js_set by (simp add: distinct_map)
  have klt: "?k i < 26" if "i < 26" for i
    using that assms(1) sub idx_less [of "w ! i"] by (metis nth_mem subsetD)
  have at: "arr ! ?k i = Some [ALPHABET ! i]" if "i < 26" for i
    unfolding arr_def
    using fold_update_nth [OF dist, of i "replicate 26 None" "\<lambda>i. Some [ALPHABET ! i]"] that klt [OF that]
    by (simp add: js_set)
  have every: "\<exists>i<26. arr ! n = Some [ALPHABET ! i]" if "n < 26" for n
  proof -
    from wiring_surj [OF assms(1,3) that] obtain i where "i < 26" "?k i = n" by blast
    then show ?thesis using at [of i] by auto
  qed
  define cs where "cs = map (\<lambda>n. hd (the (arr ! n))) js"
  have cs_len: "length cs = 26" unfolding cs_def by (simp add: js_len)
  have cs_nth: "cs ! n = hd (the (arr ! n))" if "n < 26" for n
    unfolding cs_def using that by (simp add: js_len js_nth)
  have arr_eq: "arr = map (\<lambda>c. Some [c]) cs"
  proof (rule nth_equalityI)
    show "length arr = length (map (\<lambda>c. Some [c]) cs)" using len cs_len by simp
  next
    fix n assume "n < length arr"
    then have n: "n < 26" using len by simp
    from every [OF n] obtain i where "arr ! n = Some [ALPHABET ! i]" by blast
    then show "arr ! n = map (\<lambda>c. Some [c]) cs ! n" using n by (simp add: cs_len cs_nth)
  qed
  have v_eq: "v = cs" unfolding v by (subst arr_eq) (rule join_singletons)
  have l: "length v = 26" unfolding v_eq by (rule cs_len)
  have inv: "\<forall>i<26. v ! ?k i = ALPHABET ! i"
    unfolding v_eq using cs_nth klt at by simp
  have "set v \<subseteq> set ALPHABET"
  proof
    fix c assume "c \<in> set v"
    then obtain n where n: "n < 26" "v ! n = c" using l by (auto simp: in_set_conv_nth)
    from every [OF n(1)] obtain i where i: "i < 26" "arr ! n = Some [ALPHABET ! i]" by blast
    then have "c = ALPHABET ! i" using n cs_nth [OF n(1)] unfolding v_eq by simp
    then show "c \<in> set ALPHABET" using i(1) by (simp add: length_ALPHABET)
  qed
  then show ?thesis using l inv by simp
qed

section \<open>Rotor round trip\<close>

lemma mod26_back:
  assumes "o' < 26" "p < 26"
  shows "((o' + 26 - p) mod 26 + p) mod 26 = (o'::nat)"
proof -
  have "((o' + 26 - p) mod 26 + p) mod 26 = (o' + 26 - p + p) mod 26"
    by (rule mod_add_left_eq)
  also have "o' + 26 - p + p = o' + 26" using assms(2) by simp
  also have "(o' + 26) mod 26 = o'" using assms(1) by simp
  finally show ?thesis .
qed

lemma mod26_forth:
  assumes "a < 26" "p < 26"
  shows "((a + p) mod 26 + 26 - p) mod 26 = (a::nat)"
proof (cases "a + p < 26")
  case True
  then have "(a + p) mod 26 = a + p" by simp
  then have "((a + p) mod 26 + 26 - p) mod 26 = (a + 26) mod 26" by simp
  then show ?thesis using assms(1) by simp
next
  case False
  then have "(a + p) mod 26 = (a + p - 26) mod 26" by (simp add: le_mod_geq)
  also have "\<dots> = a + p - 26" using assms by simp
  finally have "((a + p) mod 26 + 26 - p) mod 26 = a mod 26" using False by simp
  then show ?thesis using assms(1) by simp
qed
lemma rotor_ok_facts:
  assumes "rotor_ok r"
  obtains p where "p < 26" "posicao r = Num (int p)"
    "length (Rotor.wiring r) = 26" "set (Rotor.wiring r) \<subseteq> set ALPHABET"
    "length (inverseWiring r) = 26" "set (inverseWiring r) \<subseteq> set ALPHABET"
    "\<forall>i<26. inverseWiring r ! idx (Rotor.wiring r ! i) = ALPHABET ! i"
    "\<forall>n<26. \<exists>i<26. idx (Rotor.wiring r ! i) = n"
proof -
  from assms have len: "length (Rotor.wiring r) = 26" and dist: "distinct (Rotor.wiring r)"
    and st: "set (Rotor.wiring r) = set ALPHABET"
    and inv: "calcularInverseWiring (Rotor.wiring r) = Inr (inverseWiring r)"
    and pos: "\<exists>p<26. posicao r = Num (int p)"
    unfolding rotor_ok_def by blast+
  from pos obtain p where p: "p < 26" "posicao r = Num (int p)" by blast
  have sub: "set (Rotor.wiring r) \<subseteq> set ALPHABET" unfolding st by (rule subset_refl)
  note spec = inverseWiring_spec [OF len dist st inv]
  have surj: "\<forall>n<26. \<exists>i<26. idx (Rotor.wiring r ! i) = n"
    using wiring_surj [OF len st] by blast
  show thesis
    by (rule that [OF p len sub]) (use spec surj in blast)+
qed

lemma rotor_forward_backward:
  assumes "rotor_ok r" "x \<in> set ALPHABET"
  shows "\<exists>y\<in>set ALPHABET. passarParaFrente r [x] = Inr (Some [y]) \<and> passarParaTras r [y] = Inr (Some [x])"
proof -
  from assms(1) obtain p where p: "p < 26" "posicao r = Num (int p)"
    and w: "length (Rotor.wiring r) = 26" "set (Rotor.wiring r) \<subseteq> set ALPHABET"
    and v: "length (inverseWiring r) = 26" "set (inverseWiring r) \<subseteq> set ALPHABET"
    and inv: "\<forall>i<26. inverseWiring r ! idx (Rotor.wiring r ! i) = ALPHABET ! i"
    by (rule rotor_ok_facts)
  define j where "j = (idx x + p) mod 26"
  define k where "k = idx (Rotor.wiring r ! j)"
  define f where "f = (k + 26 - p) mod 26"
  define y where "y = ALPHABET ! f"
  have j: "j < 26" unfolding j_def by simp
  have "Rotor.wiring r ! j \<in> set ALPHABET" using w j by (metis nth_mem subsetD)
  then have k: "k < 26" unfolding k_def by (rule idx_less)
  have f: "f < 26" unfolding f_def by simp
  have y: "y \<in> set ALPHABET" unfolding y_def using f by (simp add: length_ALPHABET)
  have fwd: "passarParaFrente r [x] = Inr (Some [y])"
    unfolding y_def f_def k_def j_def by (rule passarParaFrente_letter [OF w p(2) p(1) assms(2)])
  have iy: "idx y = f" unfolding y_def by (rule idx_ALPHABET_nth [OF f])
  have back_j: "(f + p) mod 26 = k" unfolding f_def by (rule mod26_back [OF k p(1)])
  have tbl: "inverseWiring r ! k = ALPHABET ! j" unfolding k_def using inv j by blast
  have ix: "idx x < 26" by (rule idx_less [OF assms(2)])
  have fin: "(j + 26 - p) mod 26 = idx x" unfolding j_def by (rule mod26_forth [OF ix p(1)])
  have "passarParaTras r [y] = Inr (Some [ALPHABET ! ((idx (inverseWiring r ! ((idx y + p) mod 26)) + 26 - p) mod 26)])"
    by (rule passarParaTras_letter [OF v p(2) p(1) y])
  also have "\<dots> = Inr (Some [x])"
    by (simp only: iy back_j tbl idx_ALPHABET_nth [OF j] fin ALPHABET_nth_idx [OF assms(2)])
  finally show ?thesis using y fwd by blast
qed

lemma rotor_backward_forward:
  assumes "rotor_ok r" "y \<in> set ALPHABET"
  shows "\<exists>x\<in>set ALPHABET. passarParaTras r [y] = Inr (Some [x]) \<and> passarParaFrente r [x] = Inr (Some [y])"
proof -
  from assms(1) obtain p where p: "p < 26" "posicao r = Num (int p)"
    and w: "length (Rotor.wiring r) = 26" "set (Rotor.wiring r) \<subseteq> set ALPHABET"
    and v: "length (inverseWiring r) = 26" "set (inverseWiring r) \<subseteq> set ALPHABET"
    and inv: "\<forall>i<26. inverseWiring r ! idx (Rotor.wiring r ! i) = ALPHABET ! i"
    and surj: "\<forall>n<26. \<exists>i<26. idx (Rotor.wiring r ! i) = n"
    by (rule rotor_ok_facts)
  define j where "j = (idx y + p) mod 26"
  have j: "j < 26" unfolding j_def by simp
  from surj j obtain i where i: "i < 26" "idx (Rotor.wiring r ! i) = j" by blast
  define f where "f = (i + 26 - p) mod 26"
  define x where "x = ALPHABET ! f"
  have f: "f < 26" unfolding f_def by simp
  have x: "x \<in> set ALPHABET" unfolding x_def using f by (simp add: length_ALPHABET)
  have tbl: "inverseWiring r ! j = ALPHABET ! i" using inv i by blast
  have "passarParaTras r [y] = Inr (Some [ALPHABET ! ((idx (inverseWiring r ! ((idx y + p) mod 26)) + 26 - p) mod 26)])"
    by (rule passarParaTras_letter [OF v p(2) p(1) assms(2)])
  also have "\<dots> = Inr (Some [x])"
    unfolding x_def f_def by (simp only: j_def [symmetric] tbl idx_ALPHABET_nth [OF i(1)])
  finally have bwd: "passarParaTras r [y] = Inr (Some [x])" .
  have ix: "idx x = f" unfolding x_def by (rule idx_ALPHABET_nth [OF f])
  have e1: "(f + p) mod 26 = i" unfolding f_def by (rule mod26_back [OF i(1) p(1)])
  have iy: "idx y < 26" by (rule idx_less [OF assms(2)])
  have e2: "(j + 26 - p) mod 26 = idx y" unfolding j_def by (rule mod26_forth [OF iy p(1)])
  have "passarParaFrente r [x] = Inr (Some [ALPHABET ! ((idx (Rotor.wiring r ! ((idx x + p) mod 26)) + 26 - p) mod 26)])"
    by (rule passarParaFrente_letter [OF w p(2) p(1) x])
  also have "\<dots> = Inr (Some [y])"
    by (simp only: ix e1 i(2) e2 ALPHABET_nth_idx [OF assms(2)])
  finally show ?thesis using x bwd by blast
qed


lemma Rotor_new_ok:
  assumes "Rotor_new w notch p0 = Inr r0"
    and "distinct (toUpperCase w)" "set (toUpperCase w) = set ALPHABET" "p < 26"
  shows "rotor_ok (r0\<lparr>posicao := Num (int p)\<rparr>)"
proof -
  have len: "length w = 26"
    using assms(1) unfolding Rotor_new_def by (simp split: if_splits)
  then obtain v where v: "calcularInverseWiring (toUpperCase w) = Inr v"
    and r0: "r0 = \<lparr>Rotor.wiring = toUpperCase w, notchChar = toUpperCase notch,
                    posicao = num_rem26 p0, inverseWiring = v\<rparr>"
    using assms(1) unfolding Rotor_new_def
    by (cases "calcularInverseWiring (toUpperCase w)") auto
  have l: "length (toUpperCase w) = 26" using len by (simp add: toUpperCase_def)
  show ?thesis
    unfolding rotor_ok_def r0 using l assms(2) assms(3) v assms(4) by simp
qed

text \<open>
  C3. For a rotor built by the constructor from a 26-letter wiring that is a permutation of
  the alphabet, at any position 0..25 and for any letter \<open>x\<close> of the alphabet: the forward
  pass followed by the backward pass gives \<open>x\<close> back, and so does the backward pass
  followed by the forward pass.
\<close>

theorem rotor_round_trip:
  assumes "Rotor_new w notch p0 = Inr r0"
    and "distinct (toUpperCase w)" "set (toUpperCase w) = set ALPHABET"
    and "p < 26" "x \<in> set ALPHABET"
  shows "(\<exists>y. passarParaFrente (r0\<lparr>posicao := Num (int p)\<rparr>) [x] = Inr (Some y)
              \<and> passarParaTras (r0\<lparr>posicao := Num (int p)\<rparr>) y = Inr (Some [x]))
       \<and> (\<exists>z. passarParaTras (r0\<lparr>posicao := Num (int p)\<rparr>) [x] = Inr (Some z)
              \<and> passarParaFrente (r0\<lparr>posicao := Num (int p)\<rparr>) z = Inr (Some [x]))"
proof -
  have ok: "rotor_ok (r0\<lparr>posicao := Num (int p)\<rparr>)"
    by (rule Rotor_new_ok [OF assms(1-4)])
  from rotor_forward_backward [OF ok assms(5)] rotor_backward_forward [OF ok assms(5)]
  show ?thesis by blast
qed

subsection \<open>The five standard rotors\<close>

lemma ROTOR_I_eq: "ROTOR_I = Inr \<lparr>Rotor.wiring = ''EKMFLGDQVZNTOWYHXUSPAIBRCJ'', notchChar = ''Q'', posicao = Num 0, inverseWiring = ''UWYGADFPVZBECKMTHXSLRINQOJ''\<rparr>"
  by code_simp

lemma ROTOR_II_eq: "ROTOR_II = Inr \<lparr>Rotor.wiring = ''AJDKSIRUXBLHWTMCQGZNPYFVOE'', notchChar = ''E'', posicao = Num 0, inverseWiring = ''AJPCZWRLFBDKOTYUQGENHXMIVS''\<rparr>"
  by code_simp

lemma ROTOR_III_eq: "ROTOR_III = Inr \<lparr>Rotor.wiring = ''BDFHJLCPRTXVZNYEIWGAKMUSQO'', notchChar = ''V'', posicao = Num 0, inverseWiring = ''TAGBPCSDQEUFVNZHYIXJWLRKOM''\<rparr>"
  by code_simp

lemma ROTOR_IV_eq: "ROTOR_IV = Inr \<lparr>Rotor.wiring = ''ESOVPZJAYQUIRHXLNFTGKDCMWB'', notchChar = ''J'', posicao = Num 0, inverseWiring = ''HZWVARTNLGUPXQCEJMBSKDYOIF''\<rparr>"
  by code_simp

lemma ROTOR_V_eq: "ROTOR_V = Inr \<lparr>Rotor.wiring = ''VZBRGITYUPSDNHLXAWMJQOFECK'', notchChar = ''Z'', posicao = Num 0, inverseWiring = ''QCYLXWENFTZOSMVJUDKGIARPHB''\<rparr>"
  by code_simp

lemma rotor_wirings_perm:
  "distinct ''EKMFLGDQVZNTOWYHXUSPAIBRCJ'' \<and> set ''EKMFLGDQVZNTOWYHXUSPAIBRCJ'' = set ALPHABET"
  "distinct ''AJDKSIRUXBLHWTMCQGZNPYFVOE'' \<and> set ''AJDKSIRUXBLHWTMCQGZNPYFVOE'' = set ALPHABET"
  "distinct ''BDFHJLCPRTXVZNYEIWGAKMUSQO'' \<and> set ''BDFHJLCPRTXVZNYEIWGAKMUSQO'' = set ALPHABET"
  "distinct ''ESOVPZJAYQUIRHXLNFTGKDCMWB'' \<and> set ''ESOVPZJAYQUIRHXLNFTGKDCMWB'' = set ALPHABET"
  "distinct ''VZBRGITYUPSDNHLXAWMJQOFECK'' \<and> set ''VZBRGITYUPSDNHLXAWMJQOFECK'' = set ALPHABET"
  by code_simp+

lemma toUpperCase_rotor_literals:
  "toUpperCase ''EKMFLGDQVZNTOWYHXUSPAIBRCJ'' = ''EKMFLGDQVZNTOWYHXUSPAIBRCJ''"
  "toUpperCase ''AJDKSIRUXBLHWTMCQGZNPYFVOE'' = ''AJDKSIRUXBLHWTMCQGZNPYFVOE''"
  "toUpperCase ''BDFHJLCPRTXVZNYEIWGAKMUSQO'' = ''BDFHJLCPRTXVZNYEIWGAKMUSQO''"
  "toUpperCase ''ESOVPZJAYQUIRHXLNFTGKDCMWB'' = ''ESOVPZJAYQUIRHXLNFTGKDCMWB''"
  "toUpperCase ''VZBRGITYUPSDNHLXAWMJQOFECK'' = ''VZBRGITYUPSDNHLXAWMJQOFECK''"
  by code_simp+

lemma Rotor_new_ok0:
  assumes "Rotor_new w notch (Num 0) = Inr r0" "toUpperCase w = w" "distinct w \<and> set w = set ALPHABET"
  shows "rotor_ok r0"
proof -
  have "rotor_ok (r0\<lparr>posicao := Num (int 0)\<rparr>)"
    by (rule Rotor_new_ok [OF assms(1)]) (simp_all only: assms(2) assms(3))
  moreover have "posicao r0 = Num 0"
    using assms(1) unfolding Rotor_new_def
    by (cases "calcularInverseWiring (toUpperCase w)") (auto split: if_splits)
  ultimately show ?thesis by (simp add: rotor_ok_def)
qed

lemma ROTOR_CONFIGS_ok: "\<exists>r. ROTOR_CONFIGS t = Inr r \<and> rotor_ok r"
proof (cases t)
  case Rotor_I
  show ?thesis unfolding Rotor_I ROTOR_CONFIGS.simps
    using Rotor_new_ok0 [OF ROTOR_I_eq [unfolded ROTOR_I_def] toUpperCase_rotor_literals(1) rotor_wirings_perm(1)]
      ROTOR_I_eq by blast
next
  case Rotor_II
  show ?thesis unfolding Rotor_II ROTOR_CONFIGS.simps
    using Rotor_new_ok0 [OF ROTOR_II_eq [unfolded ROTOR_II_def] toUpperCase_rotor_literals(2) rotor_wirings_perm(2)]
      ROTOR_II_eq by blast
next
  case Rotor_III
  show ?thesis unfolding Rotor_III ROTOR_CONFIGS.simps
    using Rotor_new_ok0 [OF ROTOR_III_eq [unfolded ROTOR_III_def] toUpperCase_rotor_literals(3) rotor_wirings_perm(3)]
      ROTOR_III_eq by blast
next
  case Rotor_IV
  show ?thesis unfolding Rotor_IV ROTOR_CONFIGS.simps
    using Rotor_new_ok0 [OF ROTOR_IV_eq [unfolded ROTOR_IV_def] toUpperCase_rotor_literals(4) rotor_wirings_perm(4)]
      ROTOR_IV_eq by blast
next
  case Rotor_V
  show ?thesis unfolding Rotor_V ROTOR_CONFIGS.simps
    using Rotor_new_ok0 [OF ROTOR_V_eq [unfolded ROTOR_V_def] toUpperCase_rotor_literals(5) rotor_wirings_perm(5)]
      ROTOR_V_eq by blast
qed

theorem rotor_round_trip_witness:
  "Rotor_new ''EKMFLGDQVZNTOWYHXUSPAIBRCJ'' ''Q'' (Num 0) =
     Inr \<lparr>Rotor.wiring = ''EKMFLGDQVZNTOWYHXUSPAIBRCJ'', notchChar = ''Q'', posicao = Num 0,
          inverseWiring = ''UWYGADFPVZBECKMTHXSLRINQOJ''\<rparr>
   \<and> distinct (toUpperCase ''EKMFLGDQVZNTOWYHXUSPAIBRCJ'')
   \<and> set (toUpperCase ''EKMFLGDQVZNTOWYHXUSPAIBRCJ'') = set ALPHABET
   \<and> (3::nat) < 26 \<and> CHR ''A'' \<in> set ALPHABET
   \<and> (\<exists>y. passarParaFrente \<lparr>Rotor.wiring = ''EKMFLGDQVZNTOWYHXUSPAIBRCJ'', notchChar = ''Q'',
               posicao = Num 3, inverseWiring = ''UWYGADFPVZBECKMTHXSLRINQOJ''\<rparr> ''A'' = Inr (Some y)
         \<and> passarParaTras \<lparr>Rotor.wiring = ''EKMFLGDQVZNTOWYHXUSPAIBRCJ'', notchChar = ''Q'',
               posicao = Num 3, inverseWiring = ''UWYGADFPVZBECKMTHXSLRINQOJ''\<rparr> y = Inr (Some ''A''))
   \<and> (\<exists>z. passarParaTras \<lparr>Rotor.wiring = ''EKMFLGDQVZNTOWYHXUSPAIBRCJ'', notchChar = ''Q'',
               posicao = Num 3, inverseWiring = ''UWYGADFPVZBECKMTHXSLRINQOJ''\<rparr> ''A'' = Inr (Some z)
         \<and> passarParaFrente \<lparr>Rotor.wiring = ''EKMFLGDQVZNTOWYHXUSPAIBRCJ'', notchChar = ''Q'',
               posicao = Num 3, inverseWiring = ''UWYGADFPVZBECKMTHXSLRINQOJ''\<rparr> z = Inr (Some ''A''))"
proof -
  have new: "Rotor_new ''EKMFLGDQVZNTOWYHXUSPAIBRCJ'' ''Q'' (Num 0) =
     Inr \<lparr>Rotor.wiring = ''EKMFLGDQVZNTOWYHXUSPAIBRCJ'', notchChar = ''Q'', posicao = Num 0,
          inverseWiring = ''UWYGADFPVZBECKMTHXSLRINQOJ''\<rparr>"
    using ROTOR_I_eq unfolding ROTOR_I_def .
  have d: "distinct (toUpperCase ''EKMFLGDQVZNTOWYHXUSPAIBRCJ'')"
   and s: "set (toUpperCase ''EKMFLGDQVZNTOWYHXUSPAIBRCJ'') = set ALPHABET"
    using rotor_wirings_perm(1) by (simp_all only: toUpperCase_rotor_literals)
  have p: "(3::nat) < 26" by simp
  have a: "CHR ''A'' \<in> set ALPHABET" by (simp add: ALPHABET_def)
  from rotor_round_trip [OF new d s p a] new d s p a show ?thesis by simp
qed


section \<open>Plugboard\<close>

lemma identidade_lookup:
  "identidade cs m [c] = (if c \<in> set cs then Some [c] else m [c])"
  by (induction cs arbitrary: m) auto

lemma identidade_ok: "plugboard_ok \<lparr>mapa = identidade ALPHABET Map.empty\<rparr>"
  unfolding plugboard_ok_def by (simp add: identidade_lookup)

lemma aplicarPares_step:
  "aplicarPares (par # pares) m =
     (case letrasDoPar par of
        [a, b] \<Rightarrow> aplicarPares pares ((m([a] \<mapsto> [b]))([b] \<mapsto> [a]))
      | _ \<Rightarrow> aplicarPares pares m)"
  by (simp add: letrasDoPar_def toUpperCase_def Let_def)

lemma letrasDoPar_letters: "set (letrasDoPar par) \<subseteq> set ALPHABET"
  by (auto simp: letrasDoPar_def toUpperCase_def Let_def includes_str_single)

lemma letrasDoPar_shape: "letrasDoPar par = [] \<or> (\<exists>a b. letrasDoPar par = [a, b])"
  by (simp add: letrasDoPar_def toUpperCase_def Let_def)

lemma swap_keeps_ok:
  assumes ok: "plugboard_ok \<lparr>mapa = m\<rparr>"
    and a: "a \<in> set ALPHABET" "m [a] = Some [a]"
    and b: "b \<in> set ALPHABET" "m [b] = Some [b]"
  shows "plugboard_ok \<lparr>mapa = (m([a] \<mapsto> [b]))([b] \<mapsto> [a])\<rparr>"
  unfolding plugboard_ok_def
proof
  fix x assume x: "x \<in> set ALPHABET"
  let ?m' = "(m([a] \<mapsto> [b]))([b] \<mapsto> [a])"
  show "\<exists>y\<in>set ALPHABET. mapa \<lparr>mapa = ?m'\<rparr> [x] = Some [y] \<and> mapa \<lparr>mapa = ?m'\<rparr> [y] = Some [x]"
  proof (cases "x = a \<or> x = b")
    case True
    then show ?thesis using a b by auto
  next
    case False
    from ok x obtain y where y: "y \<in> set ALPHABET" "m [x] = Some [y]" "m [y] = Some [x]"
      unfolding plugboard_ok_def by auto
    have "y \<noteq> a" "y \<noteq> b" using y(3) a(2) b(2) False by auto
    then show ?thesis using y False by auto
  qed
qed

lemma aplicarPares_ok:
  "paresDisjuntos pares \<Longrightarrow> plugboard_ok \<lparr>mapa = m\<rparr> \<Longrightarrow>
   (\<forall>par\<in>set pares. \<forall>c\<in>set (letrasDoPar par). m [c] = Some [c]) \<Longrightarrow>
   plugboard_ok \<lparr>mapa = aplicarPares pares m\<rparr>"
proof (induction pares arbitrary: m)
  case Nil
  then show ?case by simp
next
  case (Cons par pares)
  have disj: "paresDisjuntos pares" using Cons.prems(1) by simp
  have fresh: "\<forall>q\<in>set pares. \<forall>c\<in>set (letrasDoPar q). c \<notin> set (letrasDoPar par)"
    using Cons.prems(1) by (simp add: list_all_iff)
  from letrasDoPar_shape [of par] show ?case
  proof
    assume e: "letrasDoPar par = []"
    have "plugboard_ok \<lparr>mapa = aplicarPares pares m\<rparr>"
      using Cons.IH [OF disj Cons.prems(2)] Cons.prems(3) by simp
    then show ?thesis by (simp only: aplicarPares_step e list.case)
  next
    assume "\<exists>a b. letrasDoPar par = [a, b]"
    then obtain a b where e: "letrasDoPar par = [a, b]" by blast
    have ab: "a \<in> set ALPHABET" "b \<in> set ALPHABET"
      using letrasDoPar_letters [of par] e by auto
    have fix_ab: "m [a] = Some [a]" "m [b] = Some [b]"
      using Cons.prems(3) e by auto
    let ?m' = "(m([a] \<mapsto> [b]))([b] \<mapsto> [a])"
    have ok': "plugboard_ok \<lparr>mapa = ?m'\<rparr>"
      by (rule swap_keeps_ok [OF Cons.prems(2) ab(1) fix_ab(1) ab(2) fix_ab(2)])
    have rest: "\<forall>q\<in>set pares. \<forall>c\<in>set (letrasDoPar q). ?m' [c] = Some [c]"
      using Cons.prems(3) fresh e by auto
    have "plugboard_ok \<lparr>mapa = aplicarPares pares ?m'\<rparr>"
      by (rule Cons.IH [OF disj ok' rest])
    then show ?thesis by (simp only: aplicarPares_step e list.case)
  qed
qed

lemma Plugboard_new_ok:
  assumes "paresDisjuntos pares"
  shows "plugboard_ok (Plugboard_new pares)"
  unfolding Plugboard_new_def
proof (rule aplicarPares_ok [OF assms identidade_ok])
  show "\<forall>par\<in>set pares. \<forall>c\<in>set (letrasDoPar par). identidade ALPHABET Map.empty [c] = Some [c]"
    using letrasDoPar_letters by (auto simp: identidade_lookup)
qed

lemma trocar_letter:
  assumes "plugboard_ok pb" "x \<in> set ALPHABET"
  shows "\<exists>y\<in>set ALPHABET. trocar pb [x] = [y] \<and> trocar pb [y] = [x]"
proof -
  from assms obtain y where y: "y \<in> set ALPHABET" "mapa pb [x] = Some [y]" "mapa pb [y] = Some [x]"
    unfolding plugboard_ok_def by blast
  have "trocar pb [x] = [y]"
    using y(2) assms(2) by (simp add: trocar_def toUpperCase_def toUpperCase_char_letter includes_str_single)
  moreover have "trocar pb [y] = [x]"
    using y(3) y(1) by (simp add: trocar_def toUpperCase_def toUpperCase_char_letter includes_str_single)
  ultimately show ?thesis using y(1) by blast
qed





section \<open>Stepping the rotors\<close>

lemma girar_pos:
  assumes "posicao r = Num (int p)"
  shows "posicao (girar r) = Num (int ((p + 1) mod 26))"
proof -
  have e: "num_add (Num (int p)) (Num 1) = Num (int (p + 1))" by simp
  show ?thesis by (simp only: girar_def assms e num_rem26_nat) simp
qed

lemma girar_fields:
  "Rotor.wiring (girar r) = Rotor.wiring r" "inverseWiring (girar r) = inverseWiring r"
  "notchChar (girar r) = notchChar r"
  by (simp_all add: girar_def)

lemma girar_ok:
  assumes "rotor_ok r"
  shows "rotor_ok (girar r)"
proof -
  from assms obtain p where p: "p < 26" "posicao r = Num (int p)"
    unfolding rotor_ok_def by blast
  have "(p + 1) mod 26 < 26" by simp
  then have "\<exists>q<26. posicao (girar r) = Num (int q)"
    using girar_pos [OF p(2)] by blast
  then show ?thesis using assms unfolding rotor_ok_def girar_fields by blast
qed

lemma girar_changes:
  assumes "rotor_ok r"
  shows "posicao (girar r) \<noteq> posicao r"
proof -
  from assms obtain p where p: "p < 26" "posicao r = Num (int p)"
    unfolding rotor_ok_def by blast
  have "(p + 1) mod 26 \<noteq> p" using p(1) by (cases "p = 25") simp_all
  then show ?thesis using girar_pos [OF p(2)] p(2) by simp
qed

lemma three_rotors:
  assumes "length (rs :: Rotor list) = 3"
  obtains rotorEsq rotorMeio rotorDir where "rs = [rotorEsq, rotorMeio, rotorDir]"
  using assms by (auto simp: length_Suc_conv numeral_3_eq_3)

lemma stepRotores_three:
  assumes "rotors m = [rotorEsq, rotorMeio, rotorDir]"
  shows "stepRotores m =
     (Inr (), m\<lparr>rotors :=
        [if estaNoNotch rotorMeio then girar rotorEsq else rotorEsq,
         if estaNoNotch rotorDir
           then girar (if estaNoNotch rotorMeio then girar rotorMeio else rotorMeio)
           else (if estaNoNotch rotorMeio then girar rotorMeio else rotorMeio),
         girar rotorDir]\<rparr>)"
  unfolding stepRotores_def assms by (simp add: Let_def)

lemma stepRotores_sane:
  assumes "enigma_sane m"
  shows "\<exists>m'. stepRotores m = (Inr (), m') \<and> enigma_sane m'
           \<and> reflector m' = reflector m \<and> plugboard m' = plugboard m \<and> rotors m' \<noteq> rotors m"
proof -
  from assms have len: "length (rotors m) = 3" and ok: "list_all rotor_ok (rotors m)"
    and rf: "reflector_ok (reflector m)" and pb: "plugboard_total (plugboard m)"
    unfolding enigma_sane_def by blast+
  from len obtain l mid r where rs: "rotors m = [l, mid, r]" by (rule three_rotors)
  have oks: "rotor_ok l" "rotor_ok mid" "rotor_ok r" using ok rs by simp_all
  let ?l = "if estaNoNotch mid then girar l else l"
  let ?m0 = "if estaNoNotch mid then girar mid else mid"
  let ?mid = "if estaNoNotch r then girar ?m0 else ?m0"
  let ?m' = "m\<lparr>rotors := [?l, ?mid, girar r]\<rparr>"
  have st: "stepRotores m = (Inr (), ?m')" by (rule stepRotores_three [OF rs])
  have "rotor_ok ?l" using oks girar_ok by simp
  moreover have "rotor_ok ?m0" using oks girar_ok by simp
  then have "rotor_ok ?mid" using girar_ok by simp
  moreover have "rotor_ok (girar r)" using oks girar_ok by simp
  ultimately have sane: "enigma_sane ?m'"
    unfolding enigma_sane_def using rf pb by simp
  have "girar r \<noteq> r" using girar_changes [OF oks(3)] by auto
  then have "rotors ?m' \<noteq> rotors m" using rs by simp
  then show ?thesis using st sane by simp
qed

text \<open>The route of a signal, once every stage has produced its letter.\<close>

lemma rota_eval:
  assumes "rotors m = [rotorEsq, rotorMeio, rotorDir]"
    and "passarParaFrente rotorDir (trocar (plugboard m) c0) = Inr (Some c2)"
    and "passarParaFrente rotorMeio c2 = Inr (Some c3)"
    and "passarParaFrente rotorEsq c3 = Inr (Some c4)"
    and "refletir (reflector m) c4 = Some c5"
    and "passarParaTras rotorEsq c5 = Inr (Some c6)"
    and "passarParaTras rotorMeio c6 = Inr (Some c7)"
    and "passarParaTras rotorDir c7 = Inr (Some c8)"
  shows "\<exists>path. rota m c0 = Inr path \<and> SignalPath.inputLetter path = c0
           \<and> SignalPath.outputLetter path = trocar (plugboard m) c8
           \<and> length (steps path) = 11"
  unfolding rota_def assms(1) by (simp add: assms(2-) Let_def)

section \<open>Routing a letter through the machine\<close>

lemma trocar_total:
  assumes "plugboard_total pb" "x \<in> set ALPHABET"
  shows "\<exists>y\<in>set ALPHABET. trocar pb [x] = [y]"
proof -
  from assms obtain y where y: "y \<in> set ALPHABET" "mapa pb [x] = Some [y]"
    unfolding plugboard_total_def by blast
  have "trocar pb [x] = [y]"
    using y(2) assms(2) by (simp add: trocar_def toUpperCase_def toUpperCase_char_letter includes_str_single)
  then show ?thesis using y(1) by blast
qed

lemma plugboard_ok_total: "plugboard_ok pb \<Longrightarrow> plugboard_total pb"
  unfolding plugboard_ok_def plugboard_total_def by blast

lemma reflector_okD:
  assumes "reflector_ok rf" "x \<in> set ALPHABET"
  shows "\<exists>y\<in>set ALPHABET. y \<noteq> x \<and> refletir rf [x] = Some [y] \<and> refletir rf [y] = Some [x]"
  using assms unfolding reflector_ok_def by blast

lemma enigma_sane_parts:
  assumes "enigma_sane m"
  obtains rotorEsq rotorMeio rotorDir where "rotors m = [rotorEsq, rotorMeio, rotorDir]"
    "rotor_ok rotorEsq" "rotor_ok rotorMeio" "rotor_ok rotorDir"
    "reflector_ok (reflector m)" "plugboard_total (plugboard m)"
proof -
  from assms have len: "length (rotors m) = 3" and ok: "list_all rotor_ok (rotors m)"
    and rf: "reflector_ok (reflector m)" and pb: "plugboard_total (plugboard m)"
    unfolding enigma_sane_def by blast+
  from len obtain l mid r where rs: "rotors m = [l, mid, r]" by (rule three_rotors)
  have "rotor_ok l" "rotor_ok mid" "rotor_ok r" using ok rs by simp_all
  then show thesis using rf pb by (rule that [OF rs])
qed

lemma rota_letter_total:
  assumes "enigma_sane m" "x \<in> set ALPHABET"
  shows "\<exists>y\<in>set ALPHABET. \<exists>path. rota m [x] = Inr path \<and> SignalPath.outputLetter path = [y]
           \<and> SignalPath.inputLetter path = [x] \<and> length (steps path) = 11"
proof -
  from assms(1) obtain L M R where rs: "rotors m = [L, M, R]"
    and ok: "rotor_ok L" "rotor_ok M" "rotor_ok R"
    and rf: "reflector_ok (reflector m)" and pb: "plugboard_total (plugboard m)"
    by (rule enigma_sane_parts)
  from trocar_total [OF pb assms(2)] obtain a where a: "a \<in> set ALPHABET" "trocar (plugboard m) [x] = [a]" by blast
  from rotor_forward_backward [OF ok(3) a(1)] obtain b where b: "b \<in> set ALPHABET" "passarParaFrente R [a] = Inr (Some [b])" by blast
  from rotor_forward_backward [OF ok(2) b(1)] obtain c where c: "c \<in> set ALPHABET" "passarParaFrente M [b] = Inr (Some [c])" by blast
  from rotor_forward_backward [OF ok(1) c(1)] obtain d where d: "d \<in> set ALPHABET" "passarParaFrente L [c] = Inr (Some [d])" by blast
  from reflector_okD [OF rf d(1)] obtain e where e: "e \<in> set ALPHABET" "refletir (reflector m) [d] = Some [e]" by blast
  from rotor_backward_forward [OF ok(1) e(1)] obtain f where f: "f \<in> set ALPHABET" "passarParaTras L [e] = Inr (Some [f])" by blast
  from rotor_backward_forward [OF ok(2) f(1)] obtain g where g: "g \<in> set ALPHABET" "passarParaTras M [f] = Inr (Some [g])" by blast
  from rotor_backward_forward [OF ok(3) g(1)] obtain h where h: "h \<in> set ALPHABET" "passarParaTras R [g] = Inr (Some [h])" by blast
  from trocar_total [OF pb h(1)] obtain y where y: "y \<in> set ALPHABET" "trocar (plugboard m) [h] = [y]" by blast
  have "passarParaFrente R (trocar (plugboard m) [x]) = Inr (Some [b])" using a(2) b(2) by simp
  from rota_eval [OF rs this c(2) d(2) e(2) f(2) g(2) h(2)] y show ?thesis by auto
qed

lemma rota_letter_reciprocal:
  assumes "enigma_ok m" "x \<in> set ALPHABET"
  shows "\<exists>y\<in>set ALPHABET. y \<noteq> x
           \<and> (\<exists>path. rota m [x] = Inr path \<and> SignalPath.outputLetter path = [y])
           \<and> (\<exists>path. rota m [y] = Inr path \<and> SignalPath.outputLetter path = [x])"
proof -
  from assms(1) have sane: "enigma_sane m" and pbok: "plugboard_ok (plugboard m)"
    unfolding enigma_ok_def by blast+
  from sane obtain L M R where rs: "rotors m = [L, M, R]"
    and ok: "rotor_ok L" "rotor_ok M" "rotor_ok R"
    and rf: "reflector_ok (reflector m)"
    by (rule enigma_sane_parts)
  let ?pb = "plugboard m"
  from trocar_letter [OF pbok assms(2)] obtain a where a: "a \<in> set ALPHABET" "trocar ?pb [x] = [a]" "trocar ?pb [a] = [x]" by blast
  from rotor_forward_backward [OF ok(3) a(1)] obtain b where b: "b \<in> set ALPHABET" "passarParaFrente R [a] = Inr (Some [b])" "passarParaTras R [b] = Inr (Some [a])" by blast
  from rotor_forward_backward [OF ok(2) b(1)] obtain c where c: "c \<in> set ALPHABET" "passarParaFrente M [b] = Inr (Some [c])" "passarParaTras M [c] = Inr (Some [b])" by blast
  from rotor_forward_backward [OF ok(1) c(1)] obtain d where d: "d \<in> set ALPHABET" "passarParaFrente L [c] = Inr (Some [d])" "passarParaTras L [d] = Inr (Some [c])" by blast
  from reflector_okD [OF rf d(1)] obtain e where e: "e \<in> set ALPHABET" "e \<noteq> d" "refletir (reflector m) [d] = Some [e]" "refletir (reflector m) [e] = Some [d]" by blast
  from rotor_backward_forward [OF ok(1) e(1)] obtain f where f: "f \<in> set ALPHABET" "passarParaTras L [e] = Inr (Some [f])" "passarParaFrente L [f] = Inr (Some [e])" by blast
  from rotor_backward_forward [OF ok(2) f(1)] obtain g where g: "g \<in> set ALPHABET" "passarParaTras M [f] = Inr (Some [g])" "passarParaFrente M [g] = Inr (Some [f])" by blast
  from rotor_backward_forward [OF ok(3) g(1)] obtain h where h: "h \<in> set ALPHABET" "passarParaTras R [g] = Inr (Some [h])" "passarParaFrente R [h] = Inr (Some [g])" by blast
  from trocar_letter [OF pbok h(1)] obtain y where y: "y \<in> set ALPHABET" "trocar ?pb [h] = [y]" "trocar ?pb [y] = [h]" by blast
  have s1: "passarParaFrente R (trocar ?pb [x]) = Inr (Some [b])" using a(2) b(2) by simp
  from rota_eval [OF rs s1 c(2) d(2) e(3) f(2) g(2) h(2)]
  have fwd: "\<exists>path. rota m [x] = Inr path \<and> SignalPath.outputLetter path = [y]"
    using y(2) by auto
  have s2: "passarParaFrente R (trocar ?pb [y]) = Inr (Some [g])" using y(3) h(3) by simp
  from rota_eval [OF rs s2 g(3) f(3) e(4) d(3) c(3) b(3)]
  have bwd: "\<exists>path. rota m [y] = Inr path \<and> SignalPath.outputLetter path = [x]"
    using a(3) by auto
  have "y \<noteq> x"
  proof
    assume "y = x"
    then have "h = a" using y(3) a(2) by simp
    then have "g = b" using h(3) b(2) by simp
    then have "f = c" using g(3) c(2) by simp
    then have "e = d" using f(3) d(2) by simp
    then show False using e(2) by simp
  qed
  then show ?thesis using y(1) fwd bwd by blast
qed

section \<open>Enciphering characters and text\<close>

lemma toUpperCase_single: "toUpperCase [c] = [toUpperCase_char c]"
  by (simp add: toUpperCase_def)

lemma lowercase_upper_all:
  "list_all (\<lambda>c. toUpperCase_char c \<in> set ALPHABET \<and> toUpperCase_char c \<noteq> c \<and> c \<notin> set ALPHABET)
     LOWERCASE"
  by code_simp

lemma lowercase_upper:
  "c \<in> set LOWERCASE \<Longrightarrow> toUpperCase_char c \<in> set ALPHABET \<and> toUpperCase_char c \<noteq> c \<and> c \<notin> set ALPHABET"
  using lowercase_upper_all unfolding list_all_iff by blast





lemma encipherCharWithPath_letter:
  assumes "toUpperCase_char c \<in> set ALPHABET"
  shows "encipherCharWithPath m [c] =
           (case stepRotores m of
              (Inl e, m') \<Rightarrow> (Inl e, m')
            | (Inr u, m') \<Rightarrow> (rota m' [toUpperCase_char c], m'))"
  using assms by (simp add: encipherCharWithPath_def toUpperCase_single includes_str_single)

lemma encipherCharWithPath_upper:
  assumes "toUpperCase_char c \<in> set ALPHABET"
  shows "encipherCharWithPath m [c] = encipherCharWithPath m [toUpperCase_char c]"
proof -
  have e: "toUpperCase_char (toUpperCase_char c) = toUpperCase_char c"
    using assms by (rule toUpperCase_char_letter)
  have m1: "toUpperCase_char (toUpperCase_char c) \<in> set ALPHABET"
    by (simp only: e assms)
  show ?thesis
    by (simp only: encipherCharWithPath_letter [OF assms] encipherCharWithPath_letter [OF m1] e)
qed

lemma encipherChar_upper:
  assumes "toUpperCase_char c \<in> set ALPHABET"
  shows "encipherChar m [c] = encipherChar m [toUpperCase_char c]"
  unfolding encipherChar_def by (simp only: encipherCharWithPath_upper [OF assms])


lemma encipherChar_letter_total:
  assumes "enigma_sane m" "toUpperCase_char c \<in> set ALPHABET"
  shows "\<exists>y\<in>set ALPHABET. \<exists>m'. encipherChar m [c] = (Inr [y], m') \<and> stepRotores m = (Inr (), m')
           \<and> enigma_sane m' \<and> rotors m' \<noteq> rotors m \<and> plugboard m' = plugboard m
           \<and> (\<exists>path. encipherCharWithPath m [c] = (Inr path, m') \<and> length (steps path) = 11)"
proof -
  from stepRotores_sane [OF assms(1)] obtain m' where m': "stepRotores m = (Inr (), m')"
    "enigma_sane m'" "plugboard m' = plugboard m" "rotors m' \<noteq> rotors m" by blast
  from rota_letter_total [OF m'(2) assms(2)] obtain y path where y: "y \<in> set ALPHABET"
    "rota m' [toUpperCase_char c] = Inr path" "SignalPath.outputLetter path = [y]"
    "length (steps path) = 11" by blast
  have p: "encipherCharWithPath m [c] = (Inr path, m')"
    by (simp add: encipherCharWithPath_letter [OF assms(2)] m'(1) y(2))
  then have "encipherChar m [c] = (Inr [y], m')" by (simp add: encipherChar_def y(3))
  then show ?thesis using y(1,4) m' p by blast
qed

lemma encipherChar_letter_reciprocal:
  assumes "enigma_ok m" "x \<in> set ALPHABET"
  shows "\<exists>y\<in>set ALPHABET. \<exists>m'. y \<noteq> x \<and> encipherChar m [x] = (Inr [y], m')
           \<and> encipherChar m [y] = (Inr [x], m') \<and> enigma_ok m'"
proof -
  from assms(1) have sane: "enigma_sane m" and pb: "plugboard_ok (plugboard m)"
    unfolding enigma_ok_def by blast+
  from stepRotores_sane [OF sane] obtain m' where m': "stepRotores m = (Inr (), m')"
    "enigma_sane m'" "plugboard m' = plugboard m" by blast
  have ok': "enigma_ok m'" unfolding enigma_ok_def using m'(2,3) pb by simp
  from rota_letter_reciprocal [OF ok' assms(2)] obtain y p1 p2 where y: "y \<in> set ALPHABET" "y \<noteq> x"
    "rota m' [x] = Inr p1" "SignalPath.outputLetter p1 = [y]"
    "rota m' [y] = Inr p2" "SignalPath.outputLetter p2 = [x]" by blast
  have ux: "toUpperCase_char x = x" and uy: "toUpperCase_char y = y"
    using assms(2) y(1) by (simp_all add: toUpperCase_char_letter)
  have "encipherChar m [x] = (Inr [y], m')"
    using assms(2) by (simp add: encipherChar_def encipherCharWithPath_letter ux m'(1) y(3,4))
  moreover have "encipherChar m [y] = (Inr [x], m')"
    using y(1) by (simp add: encipherChar_def encipherCharWithPath_letter uy m'(1) y(5,6))
  ultimately show ?thesis using y(1,2) ok' by blast
qed






section \<open>Building a machine, and one keystroke\<close>

lemma setPosicaoPorLetra_letter:
  assumes "toUpperCase_char c \<in> set ALPHABET"
  shows "setPosicaoPorLetra r (c # rest) = Inr (r\<lparr>posicao := Num (int (idx (toUpperCase_char c)))\<rparr>)"
proof -
  have i: "num_sub (charCodeAt0 (toUpperCase (c # rest))) (Num 65) = Num (int (idx (toUpperCase_char c)))"
    using index_of_letter [OF assms] by (simp add: toUpperCase_def)
  have "idx (toUpperCase_char c) < 26" by (rule idx_less [OF assms])
  then show ?thesis unfolding setPosicaoPorLetra_def Let_def i by simp
qed

lemma setPosicaoPorLetra_rejects:
  assumes "toUpperCase_char d \<notin> set ALPHABET"
  shows "setPosicaoPorLetra r (d # rest) = Inl (Error ''Invalid position'')"
proof -
  have "\<not> (65 \<le> (of_char (toUpperCase_char d) :: nat) \<and> (of_char (toUpperCase_char d) :: nat) \<le> 90)"
  proof
    assume a: "65 \<le> (of_char (toUpperCase_char d) :: nat) \<and> (of_char (toUpperCase_char d) :: nat) \<le> 90"
    then have "(of_char (toUpperCase_char d) :: nat) - 65 < 26" by arith
    then have "ALPHABET ! ((of_char (toUpperCase_char d) :: nat) - 65) \<in> set ALPHABET"
      by (simp add: length_ALPHABET)
    moreover have "list_all (\<lambda>n. ALPHABET ! (n - 65) = char_of n) [65..<91::nat]" by code_simp
    then have "ALPHABET ! ((of_char (toUpperCase_char d) :: nat) - 65) = char_of (of_char (toUpperCase_char d) :: nat)"
      using a unfolding list_all_iff by (simp only: set_upt atLeastLessThan_iff) auto
    ultimately show False using assms by simp
  qed
  then show ?thesis
    unfolding setPosicaoPorLetra_def Let_def by (auto simp: toUpperCase_def)
qed

lemma stepRotores_positions:
  assumes "rotors m = [rotorEsq, rotorMeio, rotorDir]"
    and "posicao rotorEsq = Num (int pl)" "posicao rotorMeio = Num (int pm)"
        "posicao rotorDir = Num (int pr)"
  shows "\<exists>l' m' r'. stepRotores m = (Inr (), m\<lparr>rotors := [l', m', r']\<rparr>)
     \<and> posicao l' = Num (int (if estaNoNotch rotorMeio then (pl + 1) mod 26 else pl))
     \<and> posicao m' = Num (int (if estaNoNotch rotorMeio \<and> estaNoNotch rotorDir then ((pm + 1) mod 26 + 1) mod 26
                               else if estaNoNotch rotorMeio \<or> estaNoNotch rotorDir then (pm + 1) mod 26
                               else pm))
     \<and> posicao r' = Num (int ((pr + 1) mod 26))
     \<and> l'\<lparr>posicao := posicao rotorEsq\<rparr> = rotorEsq
     \<and> m'\<lparr>posicao := posicao rotorMeio\<rparr> = rotorMeio
     \<and> r'\<lparr>posicao := posicao rotorDir\<rparr> = rotorDir"
proof -
  let ?l = "if estaNoNotch rotorMeio then girar rotorEsq else rotorEsq"
  let ?m0 = "if estaNoNotch rotorMeio then girar rotorMeio else rotorMeio"
  let ?mid = "if estaNoNotch rotorDir then girar ?m0 else ?m0"
  have st: "stepRotores m = (Inr (), m\<lparr>rotors := [?l, ?mid, girar rotorDir]\<rparr>)"
    by (rule stepRotores_three [OF assms(1)])
  have pl: "posicao ?l = Num (int (if estaNoNotch rotorMeio then (pl + 1) mod 26 else pl))"
    using girar_pos [OF assms(2)] assms(2) by simp
  have pm0: "posicao ?m0 = Num (int (if estaNoNotch rotorMeio then (pm + 1) mod 26 else pm))"
    using girar_pos [OF assms(3)] assms(3) by simp
  have pm: "posicao ?mid =
      Num (int (if estaNoNotch rotorMeio \<and> estaNoNotch rotorDir then ((pm + 1) mod 26 + 1) mod 26
                else if estaNoNotch rotorMeio \<or> estaNoNotch rotorDir then (pm + 1) mod 26
                else pm))"
    using girar_pos [OF pm0] pm0 by (simp split: if_splits)
  have pr: "posicao (girar rotorDir) = Num (int ((pr + 1) mod 26))"
    by (rule girar_pos [OF assms(4)])
  have same: "?l\<lparr>posicao := posicao rotorEsq\<rparr> = rotorEsq"
    "?mid\<lparr>posicao := posicao rotorMeio\<rparr> = rotorMeio"
    "(girar rotorDir)\<lparr>posicao := posicao rotorDir\<rparr> = rotorDir"
    by (simp_all add: girar_def)
  show ?thesis using st pl pm pr same by blast
qed


lemma idx_values: "idx CHR ''A'' = 0" "idx CHR ''E'' = 4" "idx CHR ''V'' = 21"
  by (simp_all add: idx_def)

lemma initEnigma_maquina:
  assumes "a \<in> set ALPHABET" "b \<in> set ALPHABET" "c \<in> set ALPHABET"
  shows "initEnigma [Rotor_I, Rotor_II, Rotor_III] Reflector_B [[a], [b], [c]] pares =
           Inr (maquina (Num (int (idx a))) (Num (int (idx b))) (Num (int (idx c))) pares)"
proof -
  have u: "toUpperCase_char a \<in> set ALPHABET" "toUpperCase_char b \<in> set ALPHABET"
    "toUpperCase_char c \<in> set ALPHABET"
    using assms by (simp_all add: toUpperCase_char_letter)
  show ?thesis
    unfolding initEnigma_def
    by (simp add: ROTOR_I_eq ROTOR_II_eq ROTOR_III_eq REFLECTOR_B_eq Enigma_new_def setPosicoes_def
        nth_opt_def setPosicaoPorLetra_letter [OF u(1)] setPosicaoPorLetra_letter [OF u(2)]
        setPosicaoPorLetra_letter [OF u(3)] toUpperCase_char_letter [OF assms(1)]
        toUpperCase_char_letter [OF assms(2)] toUpperCase_char_letter [OF assms(3)])
qed

lemma initEnigma_AEA:
  "initEnigma [Rotor_I, Rotor_II, Rotor_III] Reflector_B [''A'', ''E'', ''A''] [] =
     Inr (maquina (Num 0) (Num 4) (Num 0) [])"
  using initEnigma_maquina [of "CHR ''A''" "CHR ''E''" "CHR ''A''" "[]"]
  by (simp add: idx_values ALPHABET_def)

lemma initEnigma_AAV:
  "initEnigma [Rotor_I, Rotor_II, Rotor_III] Reflector_B [''A'', ''A'', ''V''] [] =
     Inr (maquina (Num 0) (Num 0) (Num 21) [])"
  using initEnigma_maquina [of "CHR ''A''" "CHR ''A''" "CHR ''V''" "[]"]
  by (simp add: idx_values ALPHABET_def)

lemma initEnigma_AAA:
  "initEnigma [Rotor_I, Rotor_II, Rotor_III] Reflector_B [''A'', ''A'', ''A''] pares =
     Inr (maquina (Num 0) (Num 0) (Num 0) pares)"
  using initEnigma_maquina [of "CHR ''A''" "CHR ''A''" "CHR ''A''" pares]
  by (simp add: idx_values ALPHABET_def)

lemma keystroke_AEA:
  "getPosicoes (maquina (Num 0) (Num 4) (Num 0) []) = [Some ''A'', Some ''E'', Some ''A'']
   \<and> getPosicoes (snd (encipherChar (maquina (Num 0) (Num 4) (Num 0) []) ''A'')) =
       [Some ''B'', Some ''F'', Some ''B'']"
  by code_simp

lemma keystroke_AAV:
  "getPosicoes (maquina (Num 0) (Num 0) (Num 21) []) = [Some ''A'', Some ''A'', Some ''V'']
   \<and> getPosicoes (snd (encipherChar (maquina (Num 0) (Num 0) (Num 21) []) ''A'')) =
       [Some ''A'', Some ''B'', Some ''W'']"
  by code_simp

text \<open>
  C2. Before a letter is routed, the machine reads whether the middle and the right rotor
  are at their notch, both at the positions before the step; the left rotor advances iff
  the middle one was at its notch, the middle rotor advances once for its own notch and
  once more, independently, for the notch of the right rotor, and the right rotor always
  advances; nothing but the positions changes. From A, E, A with rotors I, II, III one
  keystroke gives B, F, B; from A, A, V it gives A, B, W.
\<close>

theorem stepping_rule:
  assumes "rotors m = [rotorEsq, rotorMeio, rotorDir]"
    and "posicao rotorEsq = Num (int pl)" "posicao rotorMeio = Num (int pm)"
        "posicao rotorDir = Num (int pr)"
  shows "(\<exists>l' m' r'. stepRotores m = (Inr (), m\<lparr>rotors := [l', m', r']\<rparr>)
     \<and> posicao l' = Num (int (if estaNoNotch rotorMeio then (pl + 1) mod 26 else pl))
     \<and> posicao m' = Num (int (if estaNoNotch rotorMeio \<and> estaNoNotch rotorDir then ((pm + 1) mod 26 + 1) mod 26
                               else if estaNoNotch rotorMeio \<or> estaNoNotch rotorDir then (pm + 1) mod 26
                               else pm))
     \<and> posicao r' = Num (int ((pr + 1) mod 26))
     \<and> l'\<lparr>posicao := posicao rotorEsq\<rparr> = rotorEsq
     \<and> m'\<lparr>posicao := posicao rotorMeio\<rparr> = rotorMeio
     \<and> r'\<lparr>posicao := posicao rotorDir\<rparr> = rotorDir)
   \<and> (initEnigma [Rotor_I, Rotor_II, Rotor_III] Reflector_B [''A'', ''E'', ''A''] [] =
         Inr (maquina (Num 0) (Num 4) (Num 0) [])
       \<and> getPosicoes (maquina (Num 0) (Num 4) (Num 0) []) = [Some ''A'', Some ''E'', Some ''A'']
       \<and> getPosicoes (snd (encipherChar (maquina (Num 0) (Num 4) (Num 0) []) ''A'')) =
           [Some ''B'', Some ''F'', Some ''B''])
   \<and> (initEnigma [Rotor_I, Rotor_II, Rotor_III] Reflector_B [''A'', ''A'', ''V''] [] =
         Inr (maquina (Num 0) (Num 0) (Num 21) [])
       \<and> getPosicoes (maquina (Num 0) (Num 0) (Num 21) []) = [Some ''A'', Some ''A'', Some ''V'']
       \<and> getPosicoes (snd (encipherChar (maquina (Num 0) (Num 0) (Num 21) []) ''A'')) =
           [Some ''A'', Some ''B'', Some ''W''])"
  using stepRotores_positions [OF assms] initEnigma_AEA keystroke_AEA initEnigma_AAV keystroke_AAV
  by blast

theorem stepping_rule_witness:
  "rotors (maquina (Num 0) (Num 4) (Num 21) []) =
     [rotor_I_at (Num 0), rotor_II_at (Num 4), rotor_III_at (Num 21)]
   \<and> estaNoNotch (rotor_II_at (Num 4)) \<and> estaNoNotch (rotor_III_at (Num 21))
   \<and> (\<exists>l' m' r'. stepRotores (maquina (Num 0) (Num 4) (Num 21) []) =
          (Inr (), (maquina (Num 0) (Num 4) (Num 21) [])\<lparr>rotors := [l', m', r']\<rparr>)
        \<and> posicao l' = Num 1 \<and> posicao m' = Num 6 \<and> posicao r' = Num 22)"
proof -
  have n: "estaNoNotch (rotor_II_at (Num 4))" "estaNoNotch (rotor_III_at (Num 21))"
    by (simp_all add: estaNoNotch_def ALPHABET_def)
  have r: "rotors (maquina (Num 0) (Num 4) (Num 21) []) =
     [rotor_I_at (Num 0), rotor_II_at (Num 4), rotor_III_at (Num 21)]" by simp
  have p: "posicao (rotor_I_at (Num 0)) = Num (int 0)" "posicao (rotor_II_at (Num 4)) = Num (int 4)"
    "posicao (rotor_III_at (Num 21)) = Num (int 21)" by simp_all
  from stepping_rule [OF r p] have
    "\<exists>l' m' r'. stepRotores (maquina (Num 0) (Num 4) (Num 21) []) =
          (Inr (), (maquina (Num 0) (Num 4) (Num 21) [])\<lparr>rotors := [l', m', r']\<rparr>)
     \<and> posicao l' = Num (int (if estaNoNotch (rotor_II_at (Num 4)) then (0 + 1) mod 26 else 0))
     \<and> posicao m' = Num (int (if estaNoNotch (rotor_II_at (Num 4)) \<and> estaNoNotch (rotor_III_at (Num 21)) then ((4 + 1) mod 26 + 1) mod 26
                               else if estaNoNotch (rotor_II_at (Num 4)) \<or> estaNoNotch (rotor_III_at (Num 21)) then (4 + 1) mod 26
                               else 4))
     \<and> posicao r' = Num (int ((21 + 1) mod 26))"
    by blast
  then show ?thesis using n r by simp
qed

section \<open>Setting the positions of a machine\<close>




section \<open>Machines built from a configuration\<close>

lemma aplicarPares_total:
  "plugboard_total \<lparr>mapa = m\<rparr> \<Longrightarrow> plugboard_total \<lparr>mapa = aplicarPares pares m\<rparr>"
proof (induction pares arbitrary: m)
  case Nil
  then show ?case by simp
next
  case (Cons par pares)
  from letrasDoPar_shape [of par] show ?case
  proof
    assume e: "letrasDoPar par = []"
    have "plugboard_total \<lparr>mapa = aplicarPares pares m\<rparr>" by (rule Cons.IH [OF Cons.prems])
    then show ?thesis by (simp only: aplicarPares_step e list.case)
  next
    assume "\<exists>a b. letrasDoPar par = [a, b]"
    then obtain a b where e: "letrasDoPar par = [a, b]" by blast
    have ab: "a \<in> set ALPHABET" "b \<in> set ALPHABET"
      using letrasDoPar_letters [of par] e by auto
    have "plugboard_total \<lparr>mapa = (m([a] \<mapsto> [b]))([b] \<mapsto> [a])\<rparr>"
      using Cons.prems ab unfolding plugboard_total_def by auto
    then have "plugboard_total \<lparr>mapa = aplicarPares pares ((m([a] \<mapsto> [b]))([b] \<mapsto> [a]))\<rparr>"
      by (rule Cons.IH)
    then show ?thesis by (simp only: aplicarPares_step e list.case)
  qed
qed

lemma Plugboard_new_total: "plugboard_total (Plugboard_new pares)"
  unfolding Plugboard_new_def
  by (rule aplicarPares_total) (rule plugboard_ok_total [OF identidade_ok])

lemma map_factory_ROTOR_CONFIGS:
  "\<exists>rs'. map_factory ROTOR_CONFIGS rs = Inr rs' \<and> list_all rotor_ok rs' \<and> length rs' = length rs"
proof (induction rs)
  case Nil
  then show ?case by simp
next
  case (Cons t rs)
  from ROTOR_CONFIGS_ok [of t] obtain r where r: "ROTOR_CONFIGS t = Inr r" "rotor_ok r" by blast
  from Cons.IH obtain rs' where rs': "map_factory ROTOR_CONFIGS rs = Inr rs'"
    "list_all rotor_ok rs'" "length rs' = length rs" by blast
  show ?case using r rs' by simp
qed

lemma setPosicaoPorLetra_ok:
  assumes "setPosicaoPorLetra r p = Inr r'" "p \<noteq> []" "rotor_ok r"
  shows "rotor_ok r'"
proof -
  from assms(2) obtain c rest where p: "p = c # rest" by (cases p) auto
  show ?thesis
  proof (cases "toUpperCase_char c \<in> set ALPHABET")
    case True
    have r': "r' = r\<lparr>posicao := Num (int (idx (toUpperCase_char c)))\<rparr>"
      using assms(1) unfolding p setPosicaoPorLetra_letter [OF True] by simp
    have "idx (toUpperCase_char c) < 26" by (rule idx_less [OF True])
    then have "\<exists>q<26. posicao r' = Num (int q)" unfolding r' by simp
    then show ?thesis using assms(3) unfolding rotor_ok_def r' by simp
  next
    case False
    then show ?thesis using assms(1) unfolding p setPosicaoPorLetra_rejects [OF False] by simp
  qed
qed

lemma setPosicoes_loop_sane:
  "enigma_sane e \<Longrightarrow> [] \<notin> set ps \<Longrightarrow> setPosicoes_loop js ps e = (Inr u, e') \<Longrightarrow>
   enigma_sane e' \<and> plugboard e' = plugboard e"
proof (induction js arbitrary: e)
  case Nil
  then show ?case by simp
next
  case (Cons i js)
  from Cons.prems(3) obtain r where r: "nth_opt (rotors e) i = Some r"
    by (cases "nth_opt (rotors e) i") auto
  from Cons.prems(3) r obtain letra where l: "nth_opt ps i = Some letra"
    by (cases "nth_opt ps i") auto
  from Cons.prems(3) r l obtain r' where r': "setPosicaoPorLetra r letra = Inr r'"
    by (cases "setPosicaoPorLetra r letra") auto
  let ?e1 = "e\<lparr>rotors := (rotors e)[i := r']\<rparr>"
  have run: "setPosicoes_loop js ps ?e1 = (Inr u, e')"
    using Cons.prems(3) r l r' by simp
  have i: "i < length (rotors e)" "rotors e ! i = r"
    using r by (auto simp: nth_opt_def split: if_splits)
  have "letra \<in> set ps" using l by (auto simp: nth_opt_def split: if_splits)
  then have ne: "letra \<noteq> []" using Cons.prems(2) by auto
  have oks: "list_all rotor_ok (rotors e)" and len: "length (rotors e) = 3"
    and rf: "reflector_ok (reflector e)" and pb: "plugboard_total (plugboard e)"
    using Cons.prems(1) unfolding enigma_sane_def by blast+
  have "rotor_ok r" using oks i unfolding list_all_iff by (metis nth_mem)
  then have ok': "rotor_ok r'" by (rule setPosicaoPorLetra_ok [OF r' ne])
  have "list_all rotor_ok ((rotors e)[i := r'])"
    using oks ok' unfolding list_all_iff by (metis insert_iff set_update_subset_insert subsetD)
  then have sane1: "enigma_sane ?e1"
    unfolding enigma_sane_def using len rf pb by simp
  from Cons.IH [OF sane1 Cons.prems(2) run] show ?case by simp
qed

lemma initEnigma_sane:
  assumes "initEnigma rs rf ps pares = Inr m" "[] \<notin> set ps"
  shows "enigma_sane m \<and> plugboard m = Plugboard_new pares"
proof -
  from map_factory_ROTOR_CONFIGS [of rs] obtain rs' where rs': "map_factory ROTOR_CONFIGS rs = Inr rs'"
    "list_all rotor_ok rs'" by blast
  from REFLECTOR_CONFIGS_ok [of rf] obtain rf' where rf': "REFLECTOR_CONFIGS rf = Inr rf'"
    "reflector_ok rf'" by blast
  let ?e = "\<lparr>reflector = rf', rotors = rs', plugboard = Plugboard_new pares\<rparr>"
  have len: "length rs' = 3"
    using assms(1) unfolding initEnigma_def rs'(1) rf'(1) Enigma_new_def
    by (simp split: if_splits)
  then have new: "Enigma_new rf' rs' (Plugboard_new pares) = Inr ?e"
    by (simp add: Enigma_new_def)
  have sane: "enigma_sane ?e"
    unfolding enigma_sane_def using len rs'(2) rf'(2) Plugboard_new_total by simp
  have "(case setPosicoes ?e ps of (Inl x, enigma') \<Rightarrow> Inl x | (Inr u, enigma') \<Rightarrow> Inr enigma') = Inr m"
    using assms(1) by (simp add: initEnigma_def rs'(1) rf'(1) new)
  then obtain u where set: "setPosicoes ?e ps = (Inr u, m)"
    by (cases "setPosicoes ?e ps") (auto split: sum.splits)
  then have "setPosicoes_loop [0, 1, 2] ps ?e = (Inr u, m)"
    unfolding setPosicoes_def by (simp split: if_splits)
  from setPosicoes_loop_sane [OF sane assms(2) this] show ?thesis by simp
qed

lemma initEnigma_ok:
  assumes "initEnigma rs rf ps pares = Inr m" "[] \<notin> set ps" "paresDisjuntos pares"
  shows "enigma_ok m"
  using initEnigma_sane [OF assms(1,2)] Plugboard_new_ok [OF assms(3)]
  unfolding enigma_ok_def by simp



section \<open>Self-reciprocity\<close>

lemma maquina_AAA_ok: "paresDisjuntos pares \<Longrightarrow> enigma_ok (maquina (Num 0) (Num 0) (Num 0) pares)"
  by (rule initEnigma_ok [OF initEnigma_AAA]) simp_all

lemma maquina_AAA_sane: "enigma_sane (maquina (Num 0) (Num 0) (Num 0) pares)"
  using initEnigma_sane [OF initEnigma_AAA, of pares] by simp






section \<open>Characters that are not letters\<close>



section \<open>No letter enciphers to itself on the default configuration\<close>

text \<open>
  C8. On the machine built from rotors I, II, III, reflector B, positions A, A, A and no
  plugboard pair, \<^verbatim>\<open>encipherChar\<close> on a fresh machine maps each of the 26 letters to a
  different letter.
\<close>

theorem no_self_mapping_default:
  assumes "x \<in> set ALPHABET"
  shows "initEnigma [Rotor_I, Rotor_II, Rotor_III] Reflector_B [''A'', ''A'', ''A''] [] =
           Inr (maquina (Num 0) (Num 0) (Num 0) [])
       \<and> (\<exists>y m'. encipherChar (maquina (Num 0) (Num 0) (Num 0) []) [x] = (Inr [y], m')
             \<and> y \<in> set ALPHABET \<and> y \<noteq> x)"
proof -
  have ok: "enigma_ok (maquina (Num 0) (Num 0) (Num 0) [])" by (rule maquina_AAA_ok) simp
  from encipherChar_letter_reciprocal [OF ok assms] initEnigma_AAA [of "[]"]
  show ?thesis by blast
qed

theorem no_self_mapping_default_witness:
  "CHR ''A'' \<in> set ALPHABET
   \<and> (\<exists>y m'. encipherChar (maquina (Num 0) (Num 0) (Num 0) []) ''A'' = (Inr [y], m')
         \<and> y \<in> set ALPHABET \<and> y \<noteq> CHR ''A'')"
proof -
  have a: "CHR ''A'' \<in> set ALPHABET" by (simp add: ALPHABET_def)
  from no_self_mapping_default [OF a] a show ?thesis by blast
qed

section \<open>Lower-case input\<close>

lemma of_char_LOWERCASE:
  "c \<in> set LOWERCASE \<Longrightarrow> 97 \<le> (of_char c :: nat) \<and> (of_char c :: nat) \<le> 122"
  by (auto simp: LOWERCASE_def)

lemma lowercase_offset:
  assumes "c \<in> set LOWERCASE"
  shows "(of_char (toUpperCase_char c) :: nat) + 32 = of_char c"
proof -
  from of_char_LOWERCASE [OF assms] have r: "97 \<le> (of_char c :: nat)" "(of_char c :: nat) \<le> 122"
    by simp_all
  then have "toUpperCase_char c = char_of ((of_char c :: nat) - 32)"
    by (simp add: toUpperCase_char_def)
  moreover have "(of_char (char_of ((of_char c :: nat) - 32) :: char) :: nat) = (of_char c :: nat) - 32"
    using r by simp
  ultimately show ?thesis using r by simp
qed

text \<open>
  C10. A lower-case letter is upper-cased first: \<^verbatim>\<open>encipherChar\<close> (and
  \<^verbatim>\<open>encipherCharWithPath\<close>) on it returns the same outcome and the same machine as on
  the corresponding upper-case letter; on a well-formed machine the rotors step and the
  output is an upper-case letter, so the character is not passed through.
\<close>

theorem lowercase_input_is_enciphered:
  assumes "c \<in> set LOWERCASE"
  shows "toUpperCase_char c \<in> set ALPHABET
       \<and> (of_char (toUpperCase_char c) :: nat) + 32 = of_char c
       \<and> encipherCharWithPath m [c] = encipherCharWithPath m [toUpperCase_char c]
       \<and> encipherChar m [c] = encipherChar m [toUpperCase_char c]
       \<and> (enigma_sane m \<longrightarrow>
            (\<exists>y\<in>set ALPHABET. \<exists>m'. encipherChar m [c] = (Inr [y], m')
               \<and> stepRotores m = (Inr (), m') \<and> rotors m' \<noteq> rotors m \<and> y \<noteq> c))"
proof -
  from lowercase_upper [OF assms] have u: "toUpperCase_char c \<in> set ALPHABET"
    and nu: "c \<notin> set ALPHABET" by blast+
  have off: "(of_char (toUpperCase_char c) :: nat) + 32 = of_char c"
    by (rule lowercase_offset [OF assms])
  have "\<exists>y\<in>set ALPHABET. \<exists>m'. encipherChar m [c] = (Inr [y], m')
               \<and> stepRotores m = (Inr (), m') \<and> rotors m' \<noteq> rotors m \<and> y \<noteq> c"
    if sane: "enigma_sane m"
  proof -
    from encipherChar_letter_total [OF sane u] obtain y m' where
      y: "y \<in> set ALPHABET" "encipherChar m [c] = (Inr [y], m')" "stepRotores m = (Inr (), m')"
         "rotors m' \<noteq> rotors m" by blast
    have "y \<noteq> c" using y(1) nu by auto
    then show ?thesis using y by blast
  qed
  then show ?thesis
    using u off encipherCharWithPath_upper [OF u, of m] encipherChar_upper [OF u, of m] by blast
qed

theorem lowercase_input_is_enciphered_witness:
  "CHR ''a'' \<in> set LOWERCASE \<and> enigma_sane (maquina (Num 0) (Num 0) (Num 0) [])
   \<and> toUpperCase_char CHR ''a'' = CHR ''A''
   \<and> encipherChar (maquina (Num 0) (Num 0) (Num 0) []) ''a'' =
       encipherChar (maquina (Num 0) (Num 0) (Num 0) []) ''A''
   \<and> (\<exists>y\<in>set ALPHABET. \<exists>m'. encipherChar (maquina (Num 0) (Num 0) (Num 0) []) ''a'' = (Inr [y], m')
         \<and> stepRotores (maquina (Num 0) (Num 0) (Num 0) []) = (Inr (), m')
         \<and> rotors m' \<noteq> rotors (maquina (Num 0) (Num 0) (Num 0) []) \<and> y \<noteq> CHR ''a'')"
proof -
  have a: "CHR ''a'' \<in> set LOWERCASE" by (simp add: LOWERCASE_def)
  have u: "toUpperCase_char CHR ''a'' = CHR ''A''" by code_simp
  note t = lowercase_input_is_enciphered [OF a, of "maquina (Num 0) (Num 0) (Num 0) []", unfolded u]
  from t maquina_AAA_sane [of "[]"] a u show ?thesis by blast
qed

end
